theory Spec2Isabelle
  imports Main "HOL-Library.Word" "HOL-Library.Multiset"
begin

unbundle bit_operations_syntax

section \<open>Data model of the slab allocator (alloc_slab.cpp)\<close>

text \<open>
  The embedding follows the build of \<^verbatim>\<open>alloc_slab.cpp\<close> in which \<^verbatim>\<open>REALM_DEBUG\<close> is
  defined: that is the build in which \<^verbatim>\<open>is_all_free\<close> and \<^verbatim>\<open>verify\<close> exist and in
  which every \<^verbatim>\<open>REALM_ASSERT\<close>, \<^verbatim>\<open>REALM_ASSERT_3\<close> and \<^verbatim>\<open>REALM_ASSERT_DEBUG\<close> is checked.
  A failed assertion terminates the program; it is the error value \<open>AssertionFailed\<close>.
  \<^verbatim>\<open>size_t\<close>, \<^verbatim>\<open>ref_type\<close> and \<^verbatim>\<open>uint64_t\<close> are 64-bit words whose arithmetic wraps;
  a \<^verbatim>\<open>char*\<close> is a 64-bit address, \<^verbatim>\<open>nullptr\<close> is address 0.
\<close>

type_synonym byte = "8 word"
type_synonym size_t = "64 word"
type_synonym ref_type = "64 word"
type_synonym addr = "64 word"

definition nullptr :: addr where
  "nullptr = 0"

datatype FreeSpaceState = free_space_Clean | free_space_Dirty | free_space_Invalid

datatype AttachMode =
  attach_None | attach_OwnedBuffer | attach_UsersBuffer | attach_SharedFile | attach_UnsharedFile

text \<open>The exceptions of the file, and termination by a failed assertion.\<close>

datatype invalid_database =
    BadSize                 \<comment> \<open>"Realm file has bad size"\<close>
  | NotARealmFile           \<comment> \<open>"Not a Realm file"\<close>
  | UnsupportedFileFormat   \<comment> \<open>"Unsupported Realm file format version"\<close>
  | StreamingBadSize        \<comment> \<open>"Realm file in streaming form has bad size"\<close>
  | BadHeader1              \<comment> \<open>"Bad Realm file header (#1)"\<close>
  | BadHeader2              \<comment> \<open>"Bad Realm file header (#2)"\<close>
  | BadHeader3              \<comment> \<open>"Bad Realm file header (#3)"\<close>
  | FileTooLarge            \<comment> \<open>"Realm file too large"\<close>
  | ReadOnlyEmptyFile       \<comment> \<open>"Read-only access to empty Realm file"\<close>
  | NotCreatedWithSync      \<comment> \<open>"... was not created with support for client/server synchronization"\<close>
  | RequiresSync            \<comment> \<open>"... requires support for client/server synchronization"\<close>
  | DecryptionFailedError   \<comment> \<open>"Realm file decryption failed"\<close>

datatype error =
    InvalidFreeSpace
  | InvalidDatabase invalid_database
  | BadAlloc                \<comment> \<open>\<^verbatim>\<open>new\<close> or \<^verbatim>\<open>push_back\<close> threw\<close>
  | FileError               \<comment> \<open>an exception of the file primitives (open, write, prealloc, sync, map)\<close>
  | NullDereference         \<comment> \<open>a read through \<^verbatim>\<open>nullptr\<close> (undefined behaviour)\<close>
  | OutOfBoundsRead         \<comment> \<open>a read outside the mapped bytes (undefined behaviour)\<close>
  | AssertionFailed

record Slab =
  ref_end :: ref_type
  addr :: addr

record Chunk =
  ref :: ref_type
  size :: size_t

record MemRef =
  m_addr :: addr
  m_ref :: ref_type

record SlabAlloc =
  m_slabs :: "Slab list"
  m_free_space :: "Chunk list"
  m_free_read_only :: "Chunk list"
  m_free_space_state :: FreeSpaceState
  m_attach_mode :: AttachMode
  m_data :: addr
  m_baseline :: size_t
  m_file_on_streaming_form :: bool
  m_file_format :: int

text \<open>
  \<^verbatim>\<open>sizeof (Header)\<close> and \<^verbatim>\<open>sizeof (StreamingFooter)\<close>: the header is two 64-bit top-refs,
  four mnemonic bytes, two file format bytes, a reserved byte and a flags byte (the
  initialisers of \<^verbatim>\<open>empty_file_header\<close> and "File header is 24 bytes" in
  \<^verbatim>\<open>validate_buffer\<close>); the footer is two 64-bit words.
\<close>

definition sizeof_Header :: size_t where
  "sizeof_Header = 24"

definition sizeof_StreamingFooter :: size_t where
  "sizeof_StreamingFooter = 16"

text \<open>
  Modelled from the spec: the constants \<^verbatim>\<open>flags_SelectBit\<close> and \<^verbatim>\<open>flags_ServerSyncMode\<close>
  are declared in \<^verbatim>\<open>alloc_slab.hpp\<close>, which is not among the sources. The spec's file
  format gives "bit0 = select (0 or 1), bit1 = server_sync_mode".
\<close>

definition flags_SelectBit :: byte where
  "flags_SelectBit = 1"

definition flags_ServerSyncMode :: byte where
  "flags_ServerSyncMode = 2"

section \<open>Header and footer codec\<close>

text \<open>
  A buffer is the list of its bytes. A \<^verbatim>\<open>uint64_t\<close> is read from eight bytes in
  little-endian order (the byte order of the file format and of the hosts the library
  runs on).
\<close>

definition read_u64 :: "byte list \<Rightarrow> nat \<Rightarrow> 64 word" where
  "read_u64 data off =
     ucast (data ! off) OR
     push_bit 8 (ucast (data ! (off + 1))) OR
     push_bit 16 (ucast (data ! (off + 2))) OR
     push_bit 24 (ucast (data ! (off + 3))) OR
     push_bit 32 (ucast (data ! (off + 4))) OR
     push_bit 40 (ucast (data ! (off + 5))) OR
     push_bit 48 (ucast (data ! (off + 6))) OR
     push_bit 56 (ucast (data ! (off + 7)))"

definition u64_bytes :: "64 word \<Rightarrow> byte list" where
  "u64_bytes w =
     [ucast w, ucast (drop_bit 8 w), ucast (drop_bit 16 w), ucast (drop_bit 24 w),
      ucast (drop_bit 32 w), ucast (drop_bit 40 w), ucast (drop_bit 48 w),
      ucast (drop_bit 56 w)]"

definition write_u64 :: "byte list \<Rightarrow> nat \<Rightarrow> 64 word \<Rightarrow> byte list" where
  "write_u64 data off w = take off data @ u64_bytes w @ drop (off + 8) data"

definition char_T :: byte where "char_T = 0x54"
definition char_dash :: byte where "char_dash = 0x2D"
definition char_D :: byte where "char_D = 0x44"
definition char_B :: byte where "char_B = 0x42"

text \<open>
  \<^verbatim>\<open>SlabAlloc::validate_buffer\<close>. The constants \<^verbatim>\<open>library_file_format\<close> and
  \<^verbatim>\<open>footer_magic_cookie\<close> are declared outside the sources and are parameters. The
  function returns the exception or the top ref, and the allocator, whose streaming
  flag is set before the last two checks.
\<close>

definition validate_buffer ::
  "int \<Rightarrow> 64 word \<Rightarrow> SlabAlloc \<Rightarrow> byte list \<Rightarrow> size_t \<Rightarrow> bool \<Rightarrow> (error + ref_type) \<times> SlabAlloc" where
  "validate_buffer library_file_format footer_magic_cookie s data sz is_shared =
     (if sz < sizeof_Header \<or> sz mod 8 \<noteq> 0 then (Inl (InvalidDatabase BadSize), s)
      else if \<not> (data ! 16 = char_T \<and> data ! 17 = char_dash \<and>
                  data ! 18 = char_D \<and> data ! 19 = char_B)
        then (Inl (InvalidDatabase NotARealmFile), s)
      else
        let valid_part = unat (data ! (16 + 7) AND 1);
            file_format = uint (data ! (16 + 4 + valid_part));
            bad_file_format = (file_format \<noteq> library_file_format);
            bad_file_format =
              (if file_format = 2 \<and> library_file_format = 3 \<and> is_shared then False
               else bad_file_format)
        in
        if bad_file_format then (Inl (InvalidDatabase UnsupportedFileFormat), s)
        else
          let r = read_u64 data (8 * valid_part) in
          if valid_part = 0 \<and> r = 0xFFFFFFFFFFFFFFFF then
            if sz < sizeof_Header + sizeof_StreamingFooter
              then (Inl (InvalidDatabase StreamingBadSize), s)
            else
              let r = read_u64 data (unat sz - 16) in
              if read_u64 data (unat sz - 8) \<noteq> footer_magic_cookie
                then (Inl (InvalidDatabase BadHeader1), s)
              else
                let s = s\<lparr>m_file_on_streaming_form := True\<rparr> in
                if r mod 8 \<noteq> 0 then (Inl (InvalidDatabase BadHeader2), s)
                else if r \<ge> sz then (Inl (InvalidDatabase BadHeader3), s)
                else (Inr r, s)
          else
            if r mod 8 \<noteq> 0 then (Inl (InvalidDatabase BadHeader2), s)
            else if r \<ge> sz then (Inl (InvalidDatabase BadHeader3), s)
            else (Inr r, s))"

text \<open>
  The \<^verbatim>\<open>Header\<close> and \<^verbatim>\<open>StreamingFooter\<close> structs as they are read through
  \<^verbatim>\<open>reinterpret_cast\<close>: \<^verbatim>\<open>m_top_ref[2]\<close> at offsets 0 and 8, \<^verbatim>\<open>m_mnemonic[4]\<close> at 16,
  \<^verbatim>\<open>m_file_format[2]\<close> at 20, \<^verbatim>\<open>m_reserved\<close> at 22, \<^verbatim>\<open>m_flags\<close> at 23; the footer's
  \<^verbatim>\<open>m_top_ref\<close> and \<^verbatim>\<open>m_magic_cookie\<close> in the last 16 bytes of a buffer of \<open>sz\<close> bytes.
\<close>

definition Header_m_top_ref :: "byte list \<Rightarrow> nat \<Rightarrow> 64 word" where
  "Header_m_top_ref data i = read_u64 data (8 * i)"

definition Header_m_mnemonic :: "byte list \<Rightarrow> byte list" where
  "Header_m_mnemonic data = [data ! 16, data ! 17, data ! 18, data ! 19]"

definition Header_m_file_format :: "byte list \<Rightarrow> nat \<Rightarrow> byte" where
  "Header_m_file_format data i = data ! (20 + i)"

definition Header_m_reserved :: "byte list \<Rightarrow> byte" where
  "Header_m_reserved data = data ! 22"

definition Header_m_flags :: "byte list \<Rightarrow> byte" where
  "Header_m_flags data = data ! 23"

definition Footer_m_top_ref :: "byte list \<Rightarrow> nat \<Rightarrow> 64 word" where
  "Footer_m_top_ref data sz = read_u64 data (sz - 16)"

definition Footer_m_magic_cookie :: "byte list \<Rightarrow> nat \<Rightarrow> 64 word" where
  "Footer_m_magic_cookie data sz = read_u64 data (sz - 8)"

definition select_bit :: "byte list \<Rightarrow> nat" where
  "select_bit data = (if bit (Header_m_flags data) 0 then 1 else 0)"

text \<open>
  The validation procedure in the words of the spec (section 4.A, steps 1 to 8), over the
  fields of the header and the footer. It returns the failure or the top ref, and whether
  the allocator's streaming flag is marked.
\<close>

definition spec_check_top_ref :: "nat \<Rightarrow> 64 word \<Rightarrow> error + ref_type" where
  "spec_check_top_ref sz r =
     (if unat r mod 8 \<noteq> 0 then Inl (InvalidDatabase BadHeader2)
      else if sz \<le> unat r then Inl (InvalidDatabase BadHeader3)
      else Inr r)"

definition spec_validate :: "int \<Rightarrow> 64 word \<Rightarrow> byte list \<Rightarrow> bool \<Rightarrow> (error + ref_type) \<times> bool" where
  "spec_validate library_format cookie data shared =
     (let sz = length data; sel = select_bit data;
          F = uint (Header_m_file_format data sel);
          r = Header_m_top_ref data sel in
      if sz < 24 \<or> sz mod 8 \<noteq> 0 then (Inl (InvalidDatabase BadSize), False)
      else if Header_m_mnemonic data \<noteq> [char_T, char_dash, char_D, char_B]
        then (Inl (InvalidDatabase NotARealmFile), False)
      else if F \<noteq> library_format \<and> \<not> (shared \<and> F = 2 \<and> library_format = 3)
        then (Inl (InvalidDatabase UnsupportedFileFormat), False)
      else if sel = 0 \<and> r = 0xFFFFFFFFFFFFFFFF then
        (if sz < 24 + 16 then (Inl (InvalidDatabase StreamingBadSize), False)
         else if Footer_m_magic_cookie data sz \<noteq> cookie
           then (Inl (InvalidDatabase BadHeader1), False)
         else (spec_check_top_ref sz (Footer_m_top_ref data sz), True))
      else (spec_check_top_ref sz r, False))"

section \<open>Slab list and translation\<close>

text \<open>
  Modelled from the spec: \<^verbatim>\<open>is_attached\<close>, \<^verbatim>\<open>is_read_only\<close> and the comparison
  \<^verbatim>\<open>ref_less_than_slab_ref_end\<close> are declared in headers that are not among the sources.
  The attach state machine of the spec (section 4.E) has \<open>None\<close> as its only detached
  mode, a free is read-only when \<open>ref < B\<close> (section 4.C, step 1), and the lookup by ref
  is "an upper-bound binary search on \<open>ref_end\<close>" (section 4.B).
\<close>

definition is_attached :: "SlabAlloc \<Rightarrow> bool" where
  "is_attached s = (m_attach_mode s \<noteq> attach_None)"

definition is_read_only :: "SlabAlloc \<Rightarrow> ref_type \<Rightarrow> bool" where
  "is_read_only s r = (r < m_baseline s)"

definition ref_less_than_slab_ref_end :: "ref_type \<Rightarrow> Slab \<Rightarrow> bool" where
  "ref_less_than_slab_ref_end r slab = (r < ref_end slab)"

text \<open>
  \<^verbatim>\<open>std::upper_bound\<close> as the standard library implements it: a binary search over the
  index range \<open>[first, first + len)\<close>, returning the index of the first slab the ref is
  less than, or the length of the list (\<^verbatim>\<open>end()\<close>).
\<close>

function upper_bound_from :: "Slab list \<Rightarrow> ref_type \<Rightarrow> nat \<Rightarrow> nat \<Rightarrow> nat" where
  "upper_bound_from slabs r first len =
     (if len = 0 then first
      else
        let half = len div 2; middle = first + half in
        if ref_less_than_slab_ref_end r (slabs ! middle)
          then upper_bound_from slabs r first half
          else upper_bound_from slabs r (middle + 1) (len - half - 1))"
  by pat_completeness auto
termination
  by (relation "measure (\<lambda>(slabs, r, first, len). len)") auto

declare upper_bound_from.simps [simp del]

definition upper_bound :: "Slab list \<Rightarrow> ref_type \<Rightarrow> nat" where
  "upper_bound slabs r = upper_bound_from slabs r 0 (length slabs)"

text \<open>\<^verbatim>\<open>std::find_if\<close>: the index of the first element that satisfies the predicate.\<close>

fun find_if :: "('a \<Rightarrow> bool) \<Rightarrow> 'a list \<Rightarrow> nat option" where
  "find_if P [] = None"
| "find_if P (x # xs) =
     (if P x then Some 0 else map_option Suc (find_if P xs))"

definition ChunkRefEq :: "ref_type \<Rightarrow> Chunk \<Rightarrow> bool" where
  "ChunkRefEq r chunk = (ref chunk = r)"

definition ChunkRefEndEq :: "ref_type \<Rightarrow> Chunk \<Rightarrow> bool" where
  "ChunkRefEndEq r chunk = (ref chunk + size chunk = r)"

definition SlabRefEndEq :: "ref_type \<Rightarrow> Slab \<Rightarrow> bool" where
  "SlabRefEndEq r slab = (ref_end slab = r)"

text \<open>\<^verbatim>\<open>SlabAlloc::do_translate\<close>.\<close>

definition do_translate :: "SlabAlloc \<Rightarrow> ref_type \<Rightarrow> error + addr" where
  "do_translate s r =
     (if \<not> is_attached s then Inl AssertionFailed
      else if r < m_baseline s then Inr (m_data s + r)
      else
        let i = upper_bound (m_slabs s) r in
        if i = length (m_slabs s) then Inl AssertionFailed
        else
          let slab_ref = (if i = 0 then m_baseline s else ref_end (m_slabs s ! (i - 1)))
          in Inr (addr (m_slabs s ! i) + (r - slab_ref)))"

definition translate :: "SlabAlloc \<Rightarrow> ref_type \<Rightarrow> error + addr" where
  "translate s r = do_translate s r"

text \<open>\<^verbatim>\<open>SlabAlloc::get_total_size\<close>.\<close>

definition get_total_size :: "SlabAlloc \<Rightarrow> size_t" where
  "get_total_size s = (if m_slabs s = [] then m_baseline s else ref_end (last (m_slabs s)))"

section \<open>Allocation\<close>

text \<open>
  What the heap does during one call of \<^verbatim>\<open>do_alloc\<close>: the result of
  \<^verbatim>\<open>new char[new_size]\<close> (\<open>None\<close> when it throws), and whether the two
  \<^verbatim>\<open>push_back\<close> calls marked "Throws" succeed.
\<close>

record alloc_env =
  new_char_array :: "addr option"
  slabs_push_back_ok :: bool
  free_space_push_back_ok :: bool

text \<open>
  The reverse scan of \<^verbatim>\<open>m_free_space\<close>: the greatest index below \<open>n\<close> whose chunk is
  large enough.
\<close>

fun scan_free_space :: "Chunk list \<Rightarrow> size_t \<Rightarrow> nat \<Rightarrow> nat option" where
  "scan_free_space fs sz 0 = None"
| "scan_free_space fs sz (Suc n) =
     (if sz \<le> size (fs ! n) then Some n else scan_free_space fs sz n)"

text \<open>Erase by "move last over".\<close>

definition erase_move_last :: "'a list \<Rightarrow> nat \<Rightarrow> 'a list" where
  "erase_move_last xs i = butlast (xs[i := last xs])"

text \<open>The size of the slab that \<^verbatim>\<open>do_alloc\<close> creates, and the ref at which it starts.\<close>

definition new_slab_size :: "SlabAlloc \<Rightarrow> size_t \<Rightarrow> size_t" where
  "new_slab_size s sz =
     (let new_size = ((sz - 1) OR 255) + 1 in
      if m_slabs s = [] then new_size
      else
        let curr_ref_end = ref_end (last (m_slabs s));
            prev_ref_end = (if length (m_slabs s) = 1 then m_baseline s
                            else ref_end (m_slabs s ! (length (m_slabs s) - 2)));
            min_size = 2 * (curr_ref_end - prev_ref_end)
        in if new_size < min_size then min_size else new_size)"

definition new_slab_ref :: "SlabAlloc \<Rightarrow> ref_type" where
  "new_slab_ref s = (if m_slabs s = [] then m_baseline s else ref_end (last (m_slabs s)))"

text \<open>
  \<^verbatim>\<open>SlabAlloc::do_alloc\<close>. The allocator is returned with the result: the state changes
  made before an exception is thrown stay.
\<close>

definition do_alloc :: "SlabAlloc \<Rightarrow> size_t \<Rightarrow> alloc_env \<Rightarrow> (error + MemRef) \<times> SlabAlloc" where
  "do_alloc s sz env =
     (if \<not> (0 < sz) \<or> sz AND 7 \<noteq> 0 \<or> \<not> is_attached s then (Inl AssertionFailed, s)
      else if m_free_space_state s = free_space_Invalid then (Inl InvalidFreeSpace, s)
      else
        let s = s\<lparr>m_free_space_state := free_space_Dirty\<rparr> in
        case scan_free_space (m_free_space s) sz (length (m_free_space s)) of
          Some i \<Rightarrow>
            let r = ref (m_free_space s ! i);
                rest = size (m_free_space s ! i) - sz;
                fs = (if rest = 0 then erase_move_last (m_free_space s) i
                      else (m_free_space s)[i := \<lparr>ref = r + sz, size = rest\<rparr>]);
                s = s\<lparr>m_free_space := fs\<rparr>
            in (case translate s r of
                  Inl e \<Rightarrow> (Inl e, s)
                | Inr a \<Rightarrow> (Inr \<lparr>m_addr = a, m_ref = r\<rparr>, s))
        | None \<Rightarrow>
            let new_size = new_slab_size s sz;
                r = new_slab_ref s
            in
            if \<not> (0 < new_size) then (Inl AssertionFailed, s)
            else
              (case new_char_array env of
                 None \<Rightarrow> (Inl BadAlloc, s)
               | Some mem \<Rightarrow>
                   if \<not> slabs_push_back_ok env then (Inl BadAlloc, s)
                   else
                     let slab = \<lparr>ref_end = r + new_size, addr = mem\<rparr>;
                         s = s\<lparr>m_slabs := m_slabs s @ [slab]\<rparr>;
                         unused = new_size - sz
                     in
                     if 0 < unused then
                       if \<not> free_space_push_back_ok env then (Inl BadAlloc, s)
                       else
                         (Inr \<lparr>m_addr = addr slab, m_ref = r\<rparr>,
                          s\<lparr>m_free_space := m_free_space s @ [\<lparr>ref = r + sz, size = unused\<rparr>]\<rparr>)
                     else (Inr \<lparr>m_addr = addr slab, m_ref = r\<rparr>, s)))"

section \<open>Freeing\<close>

text \<open>
  The segment header at the freed address belongs to the array subsystem: the two
  accessors \<^verbatim>\<open>Array::get_byte_size_from_header\<close> and \<^verbatim>\<open>Array::get_capacity_from_header\<close>
  are outside the sources, and what they return for the freed segment is an input.
\<close>

record segment_header =
  byte_size_from_header :: size_t
  capacity_from_header :: size_t

text \<open>
  \<^verbatim>\<open>SlabAlloc::do_free\<close> on one of the two free lists. \<open>push_ok\<close> tells whether the
  \<^verbatim>\<open>push_back\<close> of the new chunk succeeds. The result is the list and whether the
  \<^verbatim>\<open>catch\<close> block ran.
\<close>

definition free_into ::
  "Slab list \<Rightarrow> Chunk list \<Rightarrow> ref_type \<Rightarrow> size_t \<Rightarrow> bool \<Rightarrow> Chunk list \<times> bool" where
  "free_into slabs free_space r sz push_ok =
     (let ref_end = r + sz;
          (free_space, merged_with) =
            (case find_if (ChunkRefEq ref_end) free_space of
               Some i \<Rightarrow>
                 if find_if (SlabRefEndEq ref_end) slabs = None
                   then (free_space[i := \<lparr>ref = r, size = size (free_space ! i) + sz\<rparr>], Some i)
                   else (free_space, None)
             | None \<Rightarrow> (free_space, None));
          pred = (if find_if (SlabRefEndEq r) slabs = None
                  then find_if (ChunkRefEndEq r) free_space else None)
      in
      case pred of
        Some i \<Rightarrow>
          (case merged_with of
             Some m \<Rightarrow>
               let free_space =
                     free_space[i := (free_space ! i)\<lparr>size := size (free_space ! i) + size (free_space ! m)\<rparr>]
               in (erase_move_last free_space m, False)
           | None \<Rightarrow>
               (free_space[i := (free_space ! i)\<lparr>size := size (free_space ! i) + sz\<rparr>], False))
      | None \<Rightarrow>
          (case merged_with of
             Some m \<Rightarrow> (free_space, False)
           | None \<Rightarrow>
               if push_ok then (free_space @ [\<lparr>ref = r, size = sz\<rparr>], False)
               else (free_space, True)))"

definition do_free ::
  "SlabAlloc \<Rightarrow> ref_type \<Rightarrow> addr \<Rightarrow> segment_header \<Rightarrow> bool \<Rightarrow> error + SlabAlloc" where
  "do_free s r a hdr push_ok =
     (if translate s r \<noteq> Inr a then Inl AssertionFailed
      else
        let read_only = is_read_only s r;
            sz = (if read_only then byte_size_from_header hdr else capacity_from_header hdr)
        in
        if m_free_space_state s = free_space_Invalid then Inr s
        else if \<not> (read_only \<or> m_free_space_state s = free_space_Dirty) then Inl AssertionFailed
        else
          let s = s\<lparr>m_free_space_state := free_space_Dirty\<rparr>;
              (fs, caught) =
                free_into (m_slabs s)
                  (if read_only then m_free_read_only s else m_free_space s) r sz push_ok;
              s = (if read_only then s\<lparr>m_free_read_only := fs\<rparr> else s\<lparr>m_free_space := fs\<rparr>)
          in Inr (if caught then s\<lparr>m_free_space_state := free_space_Invalid\<rparr> else s))"

text \<open>
  \<^verbatim>\<open>SlabAlloc::do_realloc\<close>. The bytes of the segments are outside the allocator's
  state: the copy of the old segment into the new one changes none of its fields.
\<close>

definition do_realloc ::
  "SlabAlloc \<Rightarrow> ref_type \<Rightarrow> addr \<Rightarrow> size_t \<Rightarrow> size_t \<Rightarrow> segment_header \<Rightarrow> alloc_env \<Rightarrow> bool \<Rightarrow>
     (error + MemRef) \<times> SlabAlloc" where
  "do_realloc s r a old_size new_size hdr env push_ok =
     (if translate s r \<noteq> Inr a \<or> \<not> (0 < new_size) \<or> new_size AND 7 \<noteq> 0
        then (Inl AssertionFailed, s)
      else
        case do_alloc s new_size env of
          (Inl e, s) \<Rightarrow> (Inl e, s)
        | (Inr new_mem, s) \<Rightarrow>
            (case do_free s r a hdr push_ok of
               Inl e \<Rightarrow> (Inl e, s)
             | Inr s \<Rightarrow> (Inr new_mem, s)))"

text \<open>
  The effect of \<^verbatim>\<open>do_alloc\<close> on the memory of the process: when a new slab is created,
  \<^verbatim>\<open>std::fill\<close> sets its \<open>new_size\<close> bytes to zero right after \<^verbatim>\<open>new\<close> has returned
  them (\<^verbatim>\<open>REALM_ENABLE_ALLOC_SET_ZERO\<close> is not defined). An address \<open>a\<close> lies in the
  buffer of \<open>n\<close> bytes at \<open>p\<close> when \<open>a - p < n\<close>.
\<close>

definition fill_memory :: "(addr \<Rightarrow> byte) \<Rightarrow> addr \<Rightarrow> size_t \<Rightarrow> byte \<Rightarrow> (addr \<Rightarrow> byte)" where
  "fill_memory memory p n v = (\<lambda>a. if a - p < n then v else memory a)"

definition do_alloc_memory ::
  "SlabAlloc \<Rightarrow> size_t \<Rightarrow> alloc_env \<Rightarrow> (addr \<Rightarrow> byte) \<Rightarrow> (addr \<Rightarrow> byte)" where
  "do_alloc_memory s sz env memory =
     (if \<not> (0 < sz) \<or> sz AND 7 \<noteq> 0 \<or> \<not> is_attached s then memory
      else if m_free_space_state s = free_space_Invalid then memory
      else
        case scan_free_space (m_free_space s) sz (length (m_free_space s)) of
          Some i \<Rightarrow> memory
        | None \<Rightarrow>
            let new_size = new_slab_size s sz in
            if \<not> (0 < new_size) then memory
            else
              (case new_char_array env of
                 None \<Rightarrow> memory
               | Some mem \<Rightarrow> fill_memory memory mem new_size 0))"

section \<open>Diagnostics\<close>

text \<open>\<^verbatim>\<open>SlabAlloc::is_all_free\<close>: the loop over the slabs, from the ref \<open>slab_ref\<close> on.\<close>

fun is_all_free_loop :: "Chunk list \<Rightarrow> ref_type \<Rightarrow> Slab list \<Rightarrow> bool" where
  "is_all_free_loop fs slab_ref [] = True"
| "is_all_free_loop fs slab_ref (slab # slabs) =
     (let slab_size = ref_end slab - slab_ref in
      case find_if (ChunkRefEq slab_ref) fs of
        None \<Rightarrow> False
      | Some i \<Rightarrow>
          if slab_size \<noteq> size (fs ! i) then False
          else is_all_free_loop fs (ref_end slab) slabs)"

definition is_all_free :: "SlabAlloc \<Rightarrow> bool" where
  "is_all_free s =
     (if length (m_free_space s) \<noteq> length (m_slabs s) then False
      else is_all_free_loop (m_free_space s) (m_baseline s) (m_slabs s))"

text \<open>
  \<^verbatim>\<open>SlabAlloc::verify\<close>: \<open>True\<close> when no assertion fails.
\<close>

definition verify_chunk :: "Slab list \<Rightarrow> Chunk \<Rightarrow> bool" where
  "verify_chunk slabs chunk =
     (let i = upper_bound slabs (ref chunk) in
      if i = length slabs then False
      else ref chunk + size chunk \<le> ref_end (slabs ! i))"

definition verify :: "SlabAlloc \<Rightarrow> bool" where
  "verify s = list_all (verify_chunk (m_slabs s)) (m_free_space s)"

text \<open>\<^verbatim>\<open>SlabAlloc::get_free_read_only\<close>.\<close>

definition get_free_read_only :: "SlabAlloc \<Rightarrow> error + Chunk list" where
  "get_free_read_only s =
     (if m_free_space_state s = free_space_Invalid then Inl InvalidFreeSpace
      else Inr (m_free_read_only s))"

section \<open>Resetting the free lists, remapping\<close>

text \<open>
  The loop of \<^verbatim>\<open>reset_free_space_tracking\<close> that rebuilds \<^verbatim>\<open>m_free_space\<close>. The
  \<^verbatim>\<open>push_back\<close> may throw: \<open>fail_at = Some k\<close> says that the push with index \<open>k\<close>
  throws, \<open>None\<close> that none does. \<open>Inl\<close> is the list at the moment of the exception.
\<close>

fun rebuild_free_space ::
  "Slab list \<Rightarrow> ref_type \<Rightarrow> Chunk list \<Rightarrow> nat option \<Rightarrow> Chunk list + Chunk list" where
  "rebuild_free_space [] chunk_ref fs fail_at = Inr fs"
| "rebuild_free_space (slab # slabs) chunk_ref fs fail_at =
     (if fail_at = Some 0 then Inl fs
      else rebuild_free_space slabs (ref_end slab)
             (fs @ [\<lparr>ref = chunk_ref, size = ref_end slab - chunk_ref\<rparr>])
             (map_option (\<lambda>k. k - 1) fail_at))"

definition reset_free_space_tracking ::
  "SlabAlloc \<Rightarrow> nat option \<Rightarrow> (error + unit) \<times> SlabAlloc" where
  "reset_free_space_tracking s fail_at =
     (if m_free_space_state s = free_space_Clean then (Inr (), s)
      else
        let s = s\<lparr>m_free_read_only := [], m_free_space := []\<rparr> in
        case rebuild_free_space (m_slabs s) (m_baseline s) [] fail_at of
          Inl fs \<Rightarrow> (Inl BadAlloc, s\<lparr>m_free_space := fs\<rparr>)
        | Inr fs \<Rightarrow>
            let s = s\<lparr>m_free_space := fs\<rparr> in
            if \<not> is_all_free s then (Inl AssertionFailed, s)
            else (Inr (), s\<lparr>m_free_space_state := free_space_Clean\<rparr>))"

text \<open>
  The loop of \<^verbatim>\<open>remap\<close> that rebases the free list and the slabs in parallel; it runs
  over \<open>n = m_free_space.size()\<close> indices, and \<open>m_slabs.size() = n\<close> has been asserted.
\<close>

fun rebase :: "ref_type \<Rightarrow> Chunk list \<Rightarrow> Slab list \<Rightarrow> Chunk list \<times> Slab list" where
  "rebase slab_ref (free_chunk # fs) (slab # slabs) =
     (let slab_ref_end = slab_ref + size free_chunk;
          (fs', slabs') = rebase slab_ref_end fs slabs
      in (free_chunk\<lparr>ref := slab_ref\<rparr> # fs', slab\<lparr>ref_end := slab_ref_end\<rparr> # slabs'))"
| "rebase slab_ref fs slabs = (fs, slabs)"

text \<open>
  \<^verbatim>\<open>SlabAlloc::remap\<close>. \<open>remapped\<close> is what \<^verbatim>\<open>m_file.remap\<close> returns, \<open>None\<close> when it
  throws.
\<close>

definition remap :: "SlabAlloc \<Rightarrow> size_t \<Rightarrow> addr option \<Rightarrow> (error + bool) \<times> SlabAlloc" where
  "remap s file_size remapped =
     (if file_size mod 8 \<noteq> 0
         \<or> \<not> (m_attach_mode s = attach_SharedFile \<or> m_attach_mode s = attach_UnsharedFile)
         \<or> m_free_space_state s \<noteq> free_space_Clean
         \<or> \<not> (m_baseline s \<le> file_size)
        then (Inl AssertionFailed, s)
      else
        case remapped of
          None \<Rightarrow> (Inl FileError, s)
        | Some a \<Rightarrow>
            let addr_changed = (a \<noteq> m_data s);
                s = s\<lparr>m_data := a, m_baseline := file_size\<rparr>
            in
            if length (m_slabs s) \<noteq> length (m_free_space s) then (Inl AssertionFailed, s)
            else
              let (fs, slabs) = rebase file_size (m_free_space s) (m_slabs s)
              in (Inr addr_changed, s\<lparr>m_free_space := fs, m_slabs := slabs\<rparr>))"

section \<open>Attachment lifecycle\<close>

text \<open>\<^verbatim>\<open>SlabAlloc::detach\<close>.\<close>

definition detach :: "SlabAlloc \<Rightarrow> SlabAlloc" where
  "detach s = s\<lparr>m_attach_mode := attach_None\<rparr>"

text \<open>\<^verbatim>\<open>SlabAlloc::attach_empty\<close>.\<close>

definition attach_empty :: "SlabAlloc \<Rightarrow> error + SlabAlloc" where
  "attach_empty s =
     (if is_attached s then Inl AssertionFailed
      else Inr (s\<lparr>m_attach_mode := attach_OwnedBuffer, m_data := nullptr,
                  m_baseline := sizeof_Header\<rparr>))"

text \<open>
  \<^verbatim>\<open>SlabAlloc::attach_buffer\<close>: \<open>a\<close> is the address of the buffer and \<open>data\<close> its bytes.
\<close>

definition header_file_format :: "byte list \<Rightarrow> int" where
  "header_file_format data =
     (let select_field = (if Header_m_flags data AND flags_SelectBit \<noteq> 0 then 1 else 0)
      in uint (Header_m_file_format data select_field))"

definition attach_buffer ::
  "int \<Rightarrow> 64 word \<Rightarrow> SlabAlloc \<Rightarrow> addr \<Rightarrow> byte list \<Rightarrow> size_t \<Rightarrow> (error + ref_type) \<times> SlabAlloc" where
  "attach_buffer library_file_format footer_magic_cookie s a data sz =
     (if is_attached s then (Inl AssertionFailed, s)
      else
        let s = s\<lparr>m_file_on_streaming_form := False\<rparr>;
            is_shared = False
        in
        case validate_buffer library_file_format footer_magic_cookie s data sz is_shared of
          (Inl e, s) \<Rightarrow> (Inl e, s)
        | (Inr top_ref, s) \<Rightarrow>
            (Inr top_ref,
             s\<lparr>m_file_format := header_file_format data, m_data := a, m_baseline := sz,
               m_attach_mode := attach_UsersBuffer\<rparr>))"

text \<open>
  The two constant headers of the file, as bytes: \<^verbatim>\<open>empty_file_header\<close> and
  \<^verbatim>\<open>streaming_header\<close>.
\<close>

definition empty_file_header :: "int \<Rightarrow> byte list" where
  "empty_file_header library_file_format =
     u64_bytes 0 @ u64_bytes 0 @ [char_T, char_dash, char_D, char_B] @
     [word_of_int library_file_format, word_of_int library_file_format] @ [0, 0]"

definition streaming_header :: "int \<Rightarrow> byte list" where
  "streaming_header library_file_format =
     u64_bytes 0xFFFFFFFFFFFFFFFF @ u64_bytes 0 @ [char_T, char_dash, char_D, char_B] @
     [word_of_int library_file_format, word_of_int library_file_format] @ [0, 0]"

text \<open>
  The file primitives (\<^verbatim>\<open>util::File\<close>) are outside the sources. For one call of
  \<^verbatim>\<open>attach_file\<close> the environment gives: the bytes of the file at the path as a mapping
  shows them (\<open>None\<close> when there is no such file), the primitive that throws during the
  call, if any, the global \<^verbatim>\<open>disable_sync_to_disk\<close> knob, and the address at which the
  file gets mapped.
\<close>

datatype file_fault =
  NoFault | OpenThrows | WriteThrows | PreallocThrows | SyncThrows | MapThrows
  | DecryptionFailed | WritableMapThrows

record file_env =
  file_contents :: "byte list option"
  fault :: file_fault
  disable_sync_to_disk :: bool
  map_addr :: addr

text \<open>
  The part of \<^verbatim>\<open>attach_file\<close> inside the \<^verbatim>\<open>try\<close> block, after the file is mapped:
  \<open>data\<close> are the mapped bytes, \<open>sz\<close> their number. It returns the exception or the top
  ref, the allocator, and the bytes of the file.
\<close>

definition attach_file_mapped ::
  "int \<Rightarrow> 64 word \<Rightarrow> SlabAlloc \<Rightarrow> file_env \<Rightarrow> byte list \<Rightarrow> size_t \<Rightarrow> bool \<Rightarrow> bool \<Rightarrow> bool \<Rightarrow> bool \<Rightarrow>
     (error + ref_type) \<times> SlabAlloc \<times> byte list" where
  "attach_file_mapped library_file_format footer_magic_cookie s env data sz did_create
       is_shared skip_validate server_sync_mode =
     (let s = s\<lparr>m_file_on_streaming_form := False\<rparr>;
          (validated, s) =
            (if \<not> skip_validate
               then validate_buffer library_file_format footer_magic_cookie s data sz is_shared
             else (Inr 0, s))
      in
      case validated of
        Inl e \<Rightarrow> (Inl e, s, data)
      | Inr top_ref \<Rightarrow>
          if length data < 24 then (Inl OutOfBoundsRead, s, data)
          else
            let (checked, data) =
              (if did_create then
                 if fault env = WritableMapThrows then (Inl FileError, data)
                 else
                   let data = data[23 := Header_m_flags data OR
                                 (if server_sync_mode then flags_ServerSyncMode else 0)]
                   in if \<not> (server_sync_mode \<longleftrightarrow> \<not> (Header_m_flags data AND flags_ServerSyncMode = 0))
                        then (Inl AssertionFailed, data)
                      else (Inr (), data)
               else
                 let stored_server_sync_mode = (\<not> (Header_m_flags data AND flags_ServerSyncMode = 0))
                 in if server_sync_mode \<and> \<not> stored_server_sync_mode
                      then (Inl (InvalidDatabase NotCreatedWithSync), data)
                    else if \<not> server_sync_mode \<and> stored_server_sync_mode
                      then (Inl (InvalidDatabase RequiresSync), data)
                    else (Inr (), data))
            in
            (case checked of
               Inl e \<Rightarrow> (Inl e, s, data)
             | Inr _ \<Rightarrow>
                 (Inr top_ref,
                  s\<lparr>m_file_format := header_file_format data,
                    m_data := map_addr env,
                    m_baseline := sz,
                    m_attach_mode := (if is_shared then attach_SharedFile else attach_UnsharedFile)\<rparr>,
                  data)))"

text \<open>
  \<^verbatim>\<open>SlabAlloc::attach_file\<close>. The result is the exception or the top ref, the allocator,
  and the bytes of the file after the call (\<open>None\<close> when there still is no file).
\<close>

definition attach_file ::
  "int \<Rightarrow> 64 word \<Rightarrow> SlabAlloc \<Rightarrow> file_env \<Rightarrow> bool \<Rightarrow> bool \<Rightarrow> bool \<Rightarrow> bool \<Rightarrow> bool \<Rightarrow>
     (error + ref_type) \<times> SlabAlloc \<times> byte list option" where
  "attach_file library_file_format footer_magic_cookie s env is_shared read_only no_create
       skip_validate server_sync_mode =
     (if is_attached s \<or> (is_shared \<and> read_only) then (Inl AssertionFailed, s, file_contents env)
      else if fault env = OpenThrows then (Inl FileError, s, file_contents env)
      else if file_contents env = None \<and> (read_only \<or> no_create)
        then (Inl FileError, s, file_contents env)
      else
        let data = (case file_contents env of None \<Rightarrow> [] | Some d \<Rightarrow> d);
            initial_size = 4 * 1024
        in
        if \<not> length data < 2 ^ 64 then (Inl (InvalidDatabase FileTooLarge), s, Some data)
        else
          let (prepared, data, did_create) =
            (if length data = 0 then
               if read_only then (Inl (InvalidDatabase ReadOnlyEmptyFile), data, True)
               else if fault env = WriteThrows then (Inl FileError, data, True)
               else
                 let data = empty_file_header library_file_format in
                 if fault env = PreallocThrows then (Inl FileError, data, True)
                 else
                   let data = data @ replicate (initial_size - length data) 0 in
                   if \<not> disable_sync_to_disk env \<and> fault env = SyncThrows
                     then (Inl FileError, data, True)
                   else (Inr (), data, True)
             else (Inr (), data, False))
          in
          case prepared of
            Inl e \<Rightarrow> (Inl e, s, Some data)
          | Inr _ \<Rightarrow>
              if fault env = MapThrows then (Inl FileError, s, Some data)
              else if fault env = DecryptionFailed
                then (Inl (InvalidDatabase DecryptionFailedError), s, Some data)
              else
                (case attach_file_mapped library_file_format footer_magic_cookie s env data
                        (of_nat (length data)) did_create is_shared skip_validate server_sync_mode of
                   (Inl e, s, data) \<Rightarrow> (Inl e, s, Some data)
                 | (Inr top_ref, s, data) \<Rightarrow>
                     (Inr top_ref, s\<lparr>m_free_space_state := free_space_Invalid\<rparr>, Some data)))"

text \<open>
  \<^verbatim>\<open>SlabAlloc::get_committed_file_format\<close> reads the header through \<^verbatim>\<open>m_data\<close>.
  \<open>mem\<close> is the memory of the process: the byte mapped at an address, if any.
\<close>

definition get_committed_file_format :: "SlabAlloc \<Rightarrow> (addr \<Rightarrow> byte option) \<Rightarrow> error + int" where
  "get_committed_file_format s mem =
     (if m_data s = nullptr then Inl NullDereference
      else
        case mem (m_data s + 23) of
          None \<Rightarrow> Inl OutOfBoundsRead
        | Some flags \<Rightarrow>
            let select_field = flags AND flags_SelectBit in
            (case mem (m_data s + 20 + ucast select_field) of
               None \<Rightarrow> Inl OutOfBoundsRead
             | Some file_format \<Rightarrow> Inr (uint file_format)))"

text \<open>
  \<^verbatim>\<open>SlabAlloc::do_prepare_for_update\<close>: \<open>mutable_data\<close> are the bytes of the writable
  mapping of the file. The flush of the mapping between the two writes changes neither
  the bytes nor the allocator.
\<close>

definition do_prepare_for_update ::
  "int \<Rightarrow> 64 word \<Rightarrow> SlabAlloc \<Rightarrow> byte list \<Rightarrow> error + byte list \<times> SlabAlloc" where
  "do_prepare_for_update library_file_format footer_magic_cookie s mutable_data =
     (let tmpl = streaming_header library_file_format in
      if \<not> m_file_on_streaming_form s then Inl AssertionFailed
      else if Header_m_flags mutable_data \<noteq> Header_m_flags tmpl
           \<or> Header_m_mnemonic mutable_data \<noteq> Header_m_mnemonic tmpl
           \<or> Header_m_top_ref mutable_data 0 \<noteq> Header_m_top_ref tmpl 0
           \<or> Header_m_top_ref mutable_data 1 \<noteq> Header_m_top_ref tmpl 1
        then Inl AssertionFailed
      else if Footer_m_magic_cookie mutable_data (unat (m_baseline s)) \<noteq> footer_magic_cookie
        then Inl AssertionFailed
      else
        let mutable_data =
              write_u64 mutable_data 8 (Footer_m_top_ref mutable_data (unat (m_baseline s)));
            mutable_data =
              mutable_data[23 := Header_m_flags mutable_data OR flags_SelectBit]
        in Inr (mutable_data, s\<lparr>m_file_on_streaming_form := False\<rparr>))"

text \<open>
  The file formats that \<^verbatim>\<open>validate_buffer\<close> lets through: the library's own, and
  format 2 under library format 3 "when accessed through SharedGroup".
\<close>

definition format_accepted :: "int \<Rightarrow> bool \<Rightarrow> byte \<Rightarrow> bool" where
  "format_accepted library_file_format is_shared f =
     (uint f = library_file_format \<or> (is_shared \<and> uint f = 2 \<and> library_file_format = 3))"

section \<open>Ranges of slabs and chunks\<close>

text \<open>
  The ref at which slab \<open>i\<close> starts: the baseline for the first slab, the end of the slab
  before it otherwise (the \<^verbatim>\<open>slab_ref\<close> of \<^verbatim>\<open>do_translate\<close>).
\<close>

definition slab_ref :: "ref_type \<Rightarrow> Slab list \<Rightarrow> nat \<Rightarrow> ref_type" where
  "slab_ref b slabs i = (if i = 0 then b else ref_end (slabs ! (i - 1)))"

text \<open>
  A well-formed slab list: every slab is non-empty and ends above its start, so that the
  ends increase strictly from the baseline; the ranges \<open>[slab_ref i, ref_end i)\<close> are
  contiguous and do not overlap.
\<close>

definition slabs_wf :: "ref_type \<Rightarrow> Slab list \<Rightarrow> bool" where
  "slabs_wf b slabs = (\<forall>i \<in> {0..<length slabs}. slab_ref b slabs i < ref_end (slabs ! i))"

text \<open>The precondition of the binary search: the ends of the slabs are sorted.\<close>

definition ends_sorted :: "Slab list \<Rightarrow> bool" where
  "ends_sorted slabs =
     (\<forall>i j. i \<le> j \<and> j < length slabs \<longrightarrow> ref_end (slabs ! i) \<le> ref_end (slabs ! j))"

text \<open>The byte range \<open>[lo, hi)\<close> lies within the range of slab \<open>i\<close>.\<close>

definition in_slab :: "ref_type \<Rightarrow> Slab list \<Rightarrow> nat \<Rightarrow> nat \<Rightarrow> nat \<Rightarrow> bool" where
  "in_slab b slabs i lo hi =
     (i < length slabs \<and> unat (slab_ref b slabs i) \<le> lo \<and> hi \<le> unat (ref_end (slabs ! i)))"

text \<open>
  A block of \<open>sz\<close> bytes at ref \<open>r\<close> lies entirely within the range of a single slab; it
  lies entirely within the immutable region \<open>[0, B)\<close>.
\<close>

definition block_in_slab :: "ref_type \<Rightarrow> Slab list \<Rightarrow> ref_type \<Rightarrow> size_t \<Rightarrow> bool" where
  "block_in_slab b slabs r sz =
     (0 < sz \<and> (\<exists>i \<in> {0..<length slabs}. in_slab b slabs i (unat r) (unat r + unat sz)))"

definition block_in_file :: "ref_type \<Rightarrow> ref_type \<Rightarrow> size_t \<Rightarrow> bool" where
  "block_in_file b r sz = (0 < sz \<and> unat r + unat sz \<le> unat b)"

definition chunk_in_slab :: "SlabAlloc \<Rightarrow> Chunk \<Rightarrow> bool" where
  "chunk_in_slab s c = block_in_slab (m_baseline s) (m_slabs s) (ref c) (size c)"

definition chunk_in_file :: "SlabAlloc \<Rightarrow> Chunk \<Rightarrow> bool" where
  "chunk_in_file s c = block_in_file (m_baseline s) (ref c) (size c)"

text \<open>The free list that has one chunk per slab, in order, each spanning its whole slab.\<close>

definition whole_slab_chunks :: "ref_type \<Rightarrow> Slab list \<Rightarrow> Chunk list" where
  "whole_slab_chunks b slabs =
     map (\<lambda>i. \<lparr>ref = slab_ref b slabs i, size = ref_end (slabs ! i) - slab_ref b slabs i\<rparr>)
       [0..<length slabs]"

text \<open>
  The invariant of the allocator: the slab list is well-formed, every chunk of the mutable
  free list lies within a single slab, every chunk of the read-only free list lies within
  the immutable region, and in the Clean state the mutable free list is the list of the
  whole slabs.
\<close>

definition alloc_inv :: "SlabAlloc \<Rightarrow> bool" where
  "alloc_inv s =
     (slabs_wf (m_baseline s) (m_slabs s)
      \<and> (\<forall>c \<in> set (m_free_space s). chunk_in_slab s c)
      \<and> (\<forall>c \<in> set (m_free_read_only s). chunk_in_file s c)
      \<and> (m_free_space_state s = free_space_Clean \<longrightarrow>
            m_free_space s = whole_slab_chunks (m_baseline s) (m_slabs s)))"

section \<open>The growth policy in the words of the spec\<close>

text \<open>
  Section 4.B of the spec: round \<open>size\<close> up to the next multiple of 256; \<open>prev_size\<close> is
  the size of the current last slab, or 0 if there is none; the size of the new slab is at
  least twice \<open>prev_size\<close>. The numbers are natural numbers: the new slab of the spec
  fits the 64-bit space of refs when its end does not reach \<open>2 ^ 64\<close>.
\<close>

definition round_up_256 :: "nat \<Rightarrow> nat" where
  "round_up_256 n = ((n + 255) div 256) * 256"

definition last_slab_size :: "SlabAlloc \<Rightarrow> nat" where
  "last_slab_size s =
     (if m_slabs s = [] then 0
      else unat (ref_end (last (m_slabs s)))
             - unat (slab_ref (m_baseline s) (m_slabs s) (length (m_slabs s) - 1)))"

definition spec_new_slab_size :: "SlabAlloc \<Rightarrow> size_t \<Rightarrow> nat" where
  "spec_new_slab_size s sz = max (round_up_256 (unat sz)) (2 * last_slab_size s)"

definition new_slab_fits :: "SlabAlloc \<Rightarrow> size_t \<Rightarrow> bool" where
  "new_slab_fits s sz = (unat (get_total_size s) + spec_new_slab_size s sz < 2 ^ 64)"

section \<open>The two halves of a free\<close>

text \<open>
  The first half of \<^verbatim>\<open>do_free\<close>: the merge with the succeeding chunk.
\<close>

definition merge_succ ::
  "Slab list \<Rightarrow> Chunk list \<Rightarrow> ref_type \<Rightarrow> size_t \<Rightarrow> Chunk list \<times> nat option" where
  "merge_succ slabs free_space r sz =
     (case find_if (ChunkRefEq (r + sz)) free_space of
        Some i \<Rightarrow>
          if find_if (SlabRefEndEq (r + sz)) slabs = None
            then (free_space[i := \<lparr>ref = r, size = size (free_space ! i) + sz\<rparr>], Some i)
            else (free_space, None)
      | None \<Rightarrow> (free_space, None))"


section \<open>Remapping in the space of refs\<close>

text \<open>
  The slab list with every end moved up by \<open>d\<close>. After a remap to a file of
  \<open>file_size\<close> bytes the slabs keep their sizes and start at \<open>file_size\<close>: they fit the
  64-bit space of refs when the new total size does not reach \<open>2 ^ 64\<close>.
\<close>

definition shift_slabs :: "ref_type \<Rightarrow> Slab list \<Rightarrow> Slab list" where
  "shift_slabs d slabs = map (\<lambda>x. x\<lparr>ref_end := ref_end x + d\<rparr>) slabs"

definition remap_fits :: "SlabAlloc \<Rightarrow> size_t \<Rightarrow> bool" where
  "remap_fits s file_size =
     (unat file_size + (unat (get_total_size s) - unat (m_baseline s)) < 2 ^ 64)"

text \<open>
  \<^verbatim>\<open>do_free\<close> reaches the \<^verbatim>\<open>push_back\<close> of the new chunk when neither merge takes
  place: no chunk of the list begins at the end of the freed block, or a slab ends there;
  and a slab ends at the freed ref, or no chunk of the list ends there.
\<close>

definition appends_chunk :: "Slab list \<Rightarrow> Chunk list \<Rightarrow> ref_type \<Rightarrow> size_t \<Rightarrow> bool" where
  "appends_chunk slabs free_space r sz =
     ((find_if (ChunkRefEq (r + sz)) free_space = None
         \<or> find_if (SlabRefEndEq (r + sz)) slabs \<noteq> None)
      \<and> (find_if (SlabRefEndEq r) slabs \<noteq> None
         \<or> find_if (ChunkRefEndEq r) free_space = None))"

section \<open>Reachable allocator states\<close>

text \<open>
  Modelled from the spec: the constructor of \<^verbatim>\<open>SlabAlloc\<close> is in \<^verbatim>\<open>alloc_slab.hpp\<close>, which
  is not among the sources. "The allocator is constructed detached" (section 3); its three
  vectors are default-constructed, that is empty. The other fields are left open.

  A state is reachable when a sequence of attach, alloc, free, realloc,
  \<^verbatim>\<open>reset_free_space_tracking\<close> and remap calls leads to it from a constructed allocator,
  no call ending the program by a failed assertion. Every call that the code accepts is a
  step, whatever the size it requests, and calls that throw are steps too: the state they
  leave behind is reachable. The relation carries the set \<open>L\<close> of the live mutable blocks,
  each a ref with its size: \<^verbatim>\<open>alloc\<close> adds the block it returns, and a free of a mutable
  ref is a free of a live block, whose size \<^verbatim>\<open>do_free\<close> reads from the segment header as
  its capacity. A free of a read-only ref is a free of a segment of the file, which lies
  within \<open>[0, B)\<close>. A reset recycles every slab, and a remap rebases them, so no block is
  live after either.

  The relation also carries the flag \<open>w\<close>, which restricts no step: it records whether
  the arithmetic of every step so far stayed within the 64-bit space of refs, that is
  whether every \<^verbatim>\<open>alloc\<close> and \<^verbatim>\<open>realloc\<close> requested a size whose new slab fits
  (\<open>new_slab_fits\<close>) and every remap was to a file size at which the rebased slabs fit
  (\<open>remap_fits\<close>).
\<close>

inductive reach ::
  "int \<Rightarrow> 64 word \<Rightarrow> SlabAlloc \<Rightarrow> (ref_type \<times> size_t) set \<Rightarrow> bool \<Rightarrow> bool"
  for library_file_format :: int and footer_magic_cookie :: "64 word" where
  constructed:
    "\<lbrakk>m_attach_mode s = attach_None; m_slabs s = []; m_free_space s = [];
      m_free_read_only s = []\<rbrakk>
     \<Longrightarrow> reach library_file_format footer_magic_cookie s {} True"
| attached_file:
    "\<lbrakk>reach library_file_format footer_magic_cookie s L w;
      attach_file library_file_format footer_magic_cookie s env is_shared read_only no_create
        skip_validate server_sync_mode = (Inr top_ref, s', file')\<rbrakk>
     \<Longrightarrow> reach library_file_format footer_magic_cookie s' L w"
| attached_buffer:
    "\<lbrakk>reach library_file_format footer_magic_cookie s L w;
      attach_buffer library_file_format footer_magic_cookie s a data sz = (Inr top_ref, s')\<rbrakk>
     \<Longrightarrow> reach library_file_format footer_magic_cookie s' L w"
| attached_empty:
    "\<lbrakk>reach library_file_format footer_magic_cookie s L w; attach_empty s = Inr s'\<rbrakk>
     \<Longrightarrow> reach library_file_format footer_magic_cookie s' L w"
| alloc:
    "\<lbrakk>reach library_file_format footer_magic_cookie s L w;
      do_alloc s sz env = (Inr mem_ref, s')\<rbrakk>
     \<Longrightarrow> reach library_file_format footer_magic_cookie s' (insert (m_ref mem_ref, sz) L)
           (w \<and> new_slab_fits s sz)"
| alloc_throws:
    "\<lbrakk>reach library_file_format footer_magic_cookie s L w;
      do_alloc s sz env = (Inl e, s'); e \<noteq> AssertionFailed\<rbrakk>
     \<Longrightarrow> reach library_file_format footer_magic_cookie s' L (w \<and> new_slab_fits s sz)"
| free_mutable:
    "\<lbrakk>reach library_file_format footer_magic_cookie s L w; \<not> is_read_only s r;
      (r, capacity_from_header hdr) \<in> L;
      do_free s r a hdr push_ok = Inr s'\<rbrakk>
     \<Longrightarrow> reach library_file_format footer_magic_cookie s' (L - {(r, capacity_from_header hdr)}) w"
| free_read_only:
    "\<lbrakk>reach library_file_format footer_magic_cookie s L w; is_read_only s r;
      block_in_file (m_baseline s) r (byte_size_from_header hdr);
      do_free s r a hdr push_ok = Inr s'\<rbrakk>
     \<Longrightarrow> reach library_file_format footer_magic_cookie s' L w"
| realloc:
    "\<lbrakk>reach library_file_format footer_magic_cookie s L w;
      if is_read_only s r then block_in_file (m_baseline s) r (byte_size_from_header hdr)
      else (r, capacity_from_header hdr) \<in> L;
      do_realloc s r a old_size new_size hdr env push_ok = (Inr mem_ref, s')\<rbrakk>
     \<Longrightarrow> reach library_file_format footer_magic_cookie s'
           (insert (m_ref mem_ref, new_size) (L - {(r, capacity_from_header hdr)}))
           (w \<and> new_slab_fits s new_size)"
| realloc_throws:
    "\<lbrakk>reach library_file_format footer_magic_cookie s L w;
      do_realloc s r a old_size new_size hdr env push_ok = (Inl e, s'); e \<noteq> AssertionFailed\<rbrakk>
     \<Longrightarrow> reach library_file_format footer_magic_cookie s' L (w \<and> new_slab_fits s new_size)"
| reset:
    "\<lbrakk>reach library_file_format footer_magic_cookie s L w;
      reset_free_space_tracking s fail_at = (Inr (), s')\<rbrakk>
     \<Longrightarrow> reach library_file_format footer_magic_cookie s' {} w"
| reset_throws:
    "\<lbrakk>reach library_file_format footer_magic_cookie s L w;
      reset_free_space_tracking s fail_at = (Inl e, s'); e \<noteq> AssertionFailed\<rbrakk>
     \<Longrightarrow> reach library_file_format footer_magic_cookie s' L w"
| remapped:
    "\<lbrakk>reach library_file_format footer_magic_cookie s L w;
      remap s file_size new_addr = (Inr addr_changed, s')\<rbrakk>
     \<Longrightarrow> reach library_file_format footer_magic_cookie s' {} (w \<and> remap_fits s file_size)"
| remap_throws:
    "\<lbrakk>reach library_file_format footer_magic_cookie s L w;
      remap s file_size new_addr = (Inl e, s'); e \<noteq> AssertionFailed\<rbrakk>
     \<Longrightarrow> reach library_file_format footer_magic_cookie s' L (w \<and> remap_fits s file_size)"

text \<open>The invariant of the reachable states, with the live blocks.\<close>

definition reach_inv :: "SlabAlloc \<Rightarrow> (ref_type \<times> size_t) set \<Rightarrow> bool" where
  "reach_inv s L =
     (alloc_inv s
      \<and> (\<forall>(r, sz) \<in> L. block_in_slab (m_baseline s) (m_slabs s) r sz)
      \<and> (\<not> is_attached s \<longrightarrow>
            m_slabs s = [] \<and> m_free_space s = [] \<and> m_free_read_only s = [] \<and> L = {}))"

section \<open>Concrete inputs\<close>

text \<open>
  The value of \<^verbatim>\<open>footer_magic_cookie\<close> used in the concrete runs below; the theorems
  hold for every value of the constant.
\<close>

definition example_cookie :: "64 word" where
  "example_cookie = 0x3034125237E526C8"

text \<open>An allocator as it is constructed: detached, no slabs, empty free lists.\<close>

definition detached_alloc :: SlabAlloc where
  "detached_alloc =
     \<lparr>m_slabs = [], m_free_space = [], m_free_read_only = [],
      m_free_space_state = free_space_Clean, m_attach_mode = attach_None,
      m_data = nullptr, m_baseline = 0, m_file_on_streaming_form = False,
      m_file_format = 0\<rparr>"

text \<open>
  A file in streaming form, 72 bytes: the streaming header with file format 3 in both
  slots, 32 bytes of payload, and the footer with top ref \<open>0x40\<close>.
\<close>

definition streaming_buffer :: "byte list" where
  "streaming_buffer =
     [0xFF, 0xFF, 0xFF, 0xFF, 0xFF, 0xFF, 0xFF, 0xFF,
      0, 0, 0, 0, 0, 0, 0, 0,
      0x54, 0x2D, 0x44, 0x42, 3, 3, 0, 0,
      0, 0, 0, 0, 0, 0, 0, 0,  0, 0, 0, 0, 0, 0, 0, 0,
      0, 0, 0, 0, 0, 0, 0, 0,  0, 0, 0, 0, 0, 0, 0, 0,
      0x40, 0, 0, 0, 0, 0, 0, 0,
      0xC8, 0x26, 0xE5, 0x37, 0x52, 0x12, 0x34, 0x30]"

text \<open>
  The same file with an unsupported file format in the inactive slot: \<open>F[0] = 3\<close>,
  \<open>F[1] = 0\<close>.
\<close>

definition streaming_buffer_F1 :: "byte list" where
  "streaming_buffer_F1 = streaming_buffer[21 := 0]"

text \<open>An allocator attached to a streaming-form file of 72 bytes.\<close>

definition streaming_alloc :: SlabAlloc where
  "streaming_alloc =
     detached_alloc\<lparr>m_attach_mode := attach_UnsharedFile, m_data := 0x10000, m_baseline := 72,
       m_file_on_streaming_form := True, m_file_format := 3,
       m_free_space_state := free_space_Invalid\<rparr>"

text \<open>
  The environment of an \<^verbatim>\<open>attach_file\<close> on a path where there is no file yet, with no
  primitive failing; the file gets mapped at address \<open>0x10000\<close>.
\<close>

definition fresh_file_env :: file_env where
  "fresh_file_env =
     \<lparr>file_contents = None, fault = NoFault, disable_sync_to_disk = False, map_addr = 0x10000\<rparr>"

text \<open>A process memory in which the streaming-form file above is mapped at \<open>0x10000\<close>.\<close>

definition streaming_memory :: "addr \<Rightarrow> byte option" where
  "streaming_memory a =
     (if 0x10000 \<le> a \<and> a < 0x10000 + 72 then Some (streaming_buffer ! unat (a - 0x10000))
      else None)"

text \<open>
  An allocator after \<^verbatim>\<open>attach_empty\<close>, and heaps that hand out memory at a given
  address (at \<open>0x20000\<close>) and let every \<^verbatim>\<open>push_back\<close> succeed.
\<close>

definition empty_alloc :: SlabAlloc where
  "empty_alloc =
     detached_alloc\<lparr>m_attach_mode := attach_OwnedBuffer, m_data := nullptr, m_baseline := 24\<rparr>"

definition good_heap_at :: "addr \<Rightarrow> alloc_env" where
  "good_heap_at a =
     \<lparr>new_char_array = Some a, slabs_push_back_ok = True, free_space_push_back_ok = True\<rparr>"

definition good_heap :: alloc_env where
  "good_heap = good_heap_at 0x20000"

text \<open>The allocator after \<open>alloc(8)\<close> on \<open>empty_alloc\<close>: one slab of 256 bytes.\<close>

definition one_slab_alloc :: SlabAlloc where
  "one_slab_alloc =
     empty_alloc\<lparr>m_free_space_state := free_space_Dirty,
       m_slabs := [\<lparr>ref_end = 280, addr = 0x20000\<rparr>],
       m_free_space := [\<lparr>ref = 32, size = 248\<rparr>]\<rparr>"

text \<open>The allocator after a further \<open>alloc(256)\<close>, which no free chunk can serve.\<close>

definition two_slab_alloc :: SlabAlloc where
  "two_slab_alloc =
     one_slab_alloc\<lparr>
       m_slabs := [\<lparr>ref_end = 280, addr = 0x20000\<rparr>, \<lparr>ref_end = 792, addr = 0x30000\<rparr>],
       m_free_space := [\<lparr>ref = 32, size = 248\<rparr>, \<lparr>ref = 536, size = 256\<rparr>]\<rparr>"

text \<open>
  The allocator after two calls \<open>alloc(8)\<close> on \<open>empty_alloc\<close> (blocks at refs 24 and 32),
  the segment header of a block of 8 bytes, and the allocator after three such calls
  (blocks at refs 24, 32 and 40).
\<close>

definition two_blocks_alloc :: SlabAlloc where
  "two_blocks_alloc = one_slab_alloc\<lparr>m_free_space := [\<lparr>ref = 40, size = 240\<rparr>]\<rparr>"

definition header_8 :: segment_header where
  "header_8 = \<lparr>byte_size_from_header = 8, capacity_from_header = 8\<rparr>"

definition three_blocks_alloc :: SlabAlloc where
  "three_blocks_alloc = one_slab_alloc\<lparr>m_free_space := [\<lparr>ref = 48, size = 232\<rparr>]\<rparr>"

text \<open>
  The coalesce scenario of the spec: three blocks of 8 bytes are allocated from a fresh
  slab and freed in the order middle, left, right; no allocation of the heap fails.
\<close>

definition coalesce_scenario :: "error + SlabAlloc" where
  "coalesce_scenario =
     (case do_alloc empty_alloc 8 good_heap of
        (Inl e, s) \<Rightarrow> Inl e
      | (Inr left, s) \<Rightarrow>
          (case do_alloc s 8 good_heap of
             (Inl e, s) \<Rightarrow> Inl e
           | (Inr middle, s) \<Rightarrow>
               (case do_alloc s 8 good_heap of
                  (Inl e, s) \<Rightarrow> Inl e
                | (Inr right, s) \<Rightarrow>
                    (case do_free s (m_ref middle) (m_addr middle) header_8 True of
                       Inl e \<Rightarrow> Inl e
                     | Inr s \<Rightarrow>
                         (case do_free s (m_ref left) (m_addr left) header_8 True of
                            Inl e \<Rightarrow> Inl e
                          | Inr s \<Rightarrow>
                              do_free s (m_ref right) (m_addr right) header_8 True)))))"

text \<open>
  The allocator after \<open>alloc(2 ^ 64 - 8)\<close> on \<open>one_slab_alloc\<close>, the heap handing out
  memory at \<open>0x30000\<close>: a second slab of 512 bytes, and a free chunk of 520 bytes at ref 272.
\<close>

definition overflow_alloc :: SlabAlloc where
  "overflow_alloc =
     one_slab_alloc\<lparr>
       m_slabs := [\<lparr>ref_end = 280, addr = 0x20000\<rparr>, \<lparr>ref_end = 792, addr = 0x30000\<rparr>],
       m_free_space := [\<lparr>ref = 32, size = 248\<rparr>, \<lparr>ref = 272, size = 520\<rparr>]\<rparr>"

section \<open>Properties of the header and footer codec\<close>

lemma unat_and_1: "unat ((b::byte) AND 1) = (if bit b 0 then 1 else 0)"
proof (cases "bit b 0")
  case True
  then have "b AND 1 = 1" by (simp add: and_one_eq bit_0 odd_iff_mod_2_eq_one)
  then show ?thesis using True by simp
next
  case False
  then have "b AND 1 = 0" by (simp add: and_one_eq bit_0 even_iff_mod_2_eq_zero)
  then show ?thesis using False by simp
qed

lemma word_mod_8_unat: "((w::64 word) mod 8 \<noteq> 0) = (unat w mod 8 \<noteq> 0)"
  by (simp add: unat_mod word_neq_0_conv unat_gt_0 flip: unat_eq_zero)

lemma check_top_ref_eq:
  "(if (r::64 word) mod 8 \<noteq> 0 then (Inl (InvalidDatabase BadHeader2), s)
    else if sz \<le> r then (Inl (InvalidDatabase BadHeader3), s) else (Inr r, s)) =
   (spec_check_top_ref (unat sz) r, s)"
  by (simp add: spec_check_top_ref_def word_mod_8_unat word_le_nat_alt)

lemma size_check_eq:
  "((sz::64 word) < sizeof_Header \<or> sz mod 8 \<noteq> 0) = (unat sz < 24 \<or> unat sz mod 8 \<noteq> 0)"
  by (simp add: sizeof_Header_def word_mod_8_unat word_less_nat_alt)

lemma streaming_size_check_eq:
  "((sz::64 word) < sizeof_Header + sizeof_StreamingFooter) = (unat sz < 24 + 16)"
  by (simp add: sizeof_Header_def sizeof_StreamingFooter_def word_less_nat_alt)

subsection \<open>Reading and writing 64-bit words\<close>

lemma octet_cases:
  assumes "n < (64::nat)"
  obtains "n < 8" | "8 \<le> n" "n < 16" | "16 \<le> n" "n < 24" | "24 \<le> n" "n < 32"
    | "32 \<le> n" "n < 40" | "40 \<le> n" "n < 48" | "48 \<le> n" "n < 56" | "56 \<le> n" "n < 64"
  using assms by linarith

lemma diff_less_nat_iff: "(n - k < (m::nat)) = (n < m + k \<and> 0 < m \<or> n < k \<and> 0 < m)"
  by arith

lemma read_u64_u64_bytes: "read_u64 (u64_bytes w) 0 = w"
proof (rule bit_word_eqI)
  fix n :: nat
  assume "n < LENGTH(64)"
  then have n: "n < 64" by simp
  show "bit (read_u64 (u64_bytes w) 0) n = bit w n"
    using n
    by (cases n rule: octet_cases)
      (simp_all add: read_u64_def u64_bytes_def bit_simps diff_less_nat_iff)
qed

lemma length_u64_bytes [simp]: "length (u64_bytes w) = 8"
  by (simp add: u64_bytes_def)

lemma length_write_u64 [simp]:
  "off + 8 \<le> length data \<Longrightarrow> length (write_u64 data off w) = length data"
  by (simp add: write_u64_def)

lemma nth_write_u64:
  assumes "off + 8 \<le> length data"
  shows "write_u64 data off w ! i =
     (if off \<le> i \<and> i < off + 8 then u64_bytes w ! (i - off) else data ! i)"
  using assms by (auto simp: write_u64_def nth_append)

lemma read_u64_eq:
  assumes "\<And>k. k < 8 \<Longrightarrow> xs ! (i + k) = ys ! (j + k)"
  shows "read_u64 xs i = read_u64 ys j"
  using assms [of 0] assms [of 1] assms [of 2] assms [of 3]
    assms [of 4] assms [of 5] assms [of 6] assms [of 7]
  by (simp add: read_u64_def)

lemma read_u64_write_u64_same:
  assumes "off + 8 \<le> length data"
  shows "read_u64 (write_u64 data off w) off = w"
proof -
  have "read_u64 (write_u64 data off w) off = read_u64 (u64_bytes w) 0"
    by (rule read_u64_eq) (simp add: nth_write_u64 [OF assms])
  then show ?thesis by (simp add: read_u64_u64_bytes)
qed

lemma read_u64_write_u64_other:
  assumes "off + 8 \<le> length data" and "i + 8 \<le> off \<or> off + 8 \<le> i"
  shows "read_u64 (write_u64 data off w) i = read_u64 data i"
  by (rule read_u64_eq) (use assms in \<open>auto simp: nth_write_u64\<close>)

lemma read_u64_list_update:
  assumes "j < i \<or> i + 8 \<le> j"
  shows "read_u64 (data[j := b]) i = read_u64 data i"
  by (rule read_u64_eq) (use assms in auto)

subsection \<open>Validation\<close>

lemma validate_buffer_eq_spec:
  assumes "length data = unat sz"
  shows "validate_buffer lib cookie s data sz sh =
     (fst (spec_validate lib cookie data sh),
      if snd (spec_validate lib cookie data sh) then s\<lparr>m_file_on_streaming_form := True\<rparr> else s)"
  unfolding validate_buffer_def spec_validate_def Let_def check_top_ref_eq size_check_eq
    streaming_size_check_eq assms unat_and_1
  by (simp add: select_bit_def Header_m_flags_def Header_m_file_format_def
    Header_m_top_ref_def Header_m_mnemonic_def Footer_m_top_ref_def Footer_m_magic_cookie_def)

text \<open>
  C2. For a buffer of \<open>sz\<close> bytes, \<^verbatim>\<open>validate_buffer\<close> decides exactly as the spec's
  validation procedure does: bad size iff \<open>sz < 24\<close> or \<open>sz mod 8 \<noteq> 0\<close>; otherwise bad
  magic iff bytes 16..19 are not \<open>T-DB\<close>; otherwise, with the select bit of the flags
  byte, bad format iff the stored format \<open>F[select]\<close> differs from the library's, stored
  format 2 with library format 3 being accepted in shared mode; otherwise, when select is 0
  and \<open>T[0]\<close> is the sentinel, the size must be at least 40 and the footer's cookie must
  match, the candidate is the footer's top ref and the streaming flag is set, else the
  candidate is \<open>T[select]\<close>; the candidate fails with header error 2 iff it is not a
  multiple of 8, with header error 3 iff it is not below \<open>sz\<close>, and is returned otherwise.
\<close>

theorem validate_buffer_refines_spec:
  assumes "length data = unat sz"
  shows "validate_buffer lib cookie s data sz sh =
     (fst (spec_validate lib cookie data sh),
      if snd (spec_validate lib cookie data sh) then s\<lparr>m_file_on_streaming_form := True\<rparr> else s)"
  using assms by (rule validate_buffer_eq_spec)

theorem validate_buffer_refines_spec_witness:
  "length streaming_buffer = unat (72 :: size_t) \<and>
   validate_buffer 3 example_cookie detached_alloc streaming_buffer 72 False =
     (Inr 0x40, detached_alloc\<lparr>m_file_on_streaming_form := True\<rparr>)"
proof -
  have len: "length streaming_buffer = unat (72 :: size_t)"
    by (simp add: streaming_buffer_def)
  have sp: "spec_validate 3 example_cookie streaming_buffer False = (Inr 0x40, True)"
    by (simp add: spec_validate_def spec_check_top_ref_def Let_def select_bit_def
      Header_m_flags_def Header_m_file_format_def Header_m_top_ref_def Header_m_mnemonic_def
      Footer_m_top_ref_def Footer_m_magic_cookie_def streaming_buffer_def read_u64_def
      example_cookie_def char_T_def char_dash_def char_D_def char_B_def)
  show ?thesis
    using validate_buffer_refines_spec [OF len, of 3 example_cookie detached_alloc False] len sp
    by simp
qed

section \<open>Streaming form to canonical form\<close>

lemma prepare_for_update_result:
  assumes prep: "do_prepare_for_update lib cookie s data = Inr (data', s')"
  shows "data' = (write_u64 data 8 (Footer_m_top_ref data (unat (m_baseline s))))
                   [23 := Header_m_flags (write_u64 data 8 (Footer_m_top_ref data (unat (m_baseline s)))) OR flags_SelectBit]"
    and "s' = s\<lparr>m_file_on_streaming_form := False\<rparr>"
    and "m_file_on_streaming_form s"
    and "Header_m_flags data = 0"
    and "Header_m_mnemonic data = [char_T, char_dash, char_D, char_B]"
    and "Header_m_top_ref data 0 = 0xFFFFFFFFFFFFFFFF"
    and "Header_m_top_ref data 1 = 0"
    and "Footer_m_magic_cookie data (unat (m_baseline s)) = cookie"
  using prep
  by (simp_all add: do_prepare_for_update_def Let_def streaming_header_def Header_m_flags_def
      Header_m_mnemonic_def Header_m_top_ref_def u64_bytes_def read_u64_def nth_append
      split: if_splits)

lemma prepare_for_update_bytes:
  assumes prep: "do_prepare_for_update lib cookie s data = Inr (data', s')"
    and len: "24 \<le> length data"
  shows "length data' = length data"
    and "Header_m_top_ref data' (Suc 0) = Footer_m_top_ref data (unat (m_baseline s))"
    and "Header_m_top_ref data' 0 = Header_m_top_ref data 0"
    and "Header_m_flags data' = 1"
    and "Header_m_mnemonic data' = Header_m_mnemonic data"
    and "i < 2 \<Longrightarrow> Header_m_file_format data' i = Header_m_file_format data i"
    and "\<And>i. 24 \<le> i \<Longrightarrow> data' ! i = data ! i"
proof -
  let ?v = "Footer_m_top_ref data (unat (m_baseline s))"
  let ?w = "write_u64 data 8 ?v"
  have w: "8 + 8 \<le> length data" using len by simp
  have fl: "Header_m_flags ?w = 0"
    using prepare_for_update_result(4) [OF prep]
    by (simp add: Header_m_flags_def nth_write_u64 [OF w])
  have d': "data' = ?w[23 := 1]"
    using prepare_for_update_result(1) [OF prep] fl by (simp add: flags_SelectBit_def)
  show "length data' = length data" using d' w by simp
  show "Header_m_top_ref data' (Suc 0) = ?v"
    by (simp add: d' Header_m_top_ref_def read_u64_list_update read_u64_write_u64_same [OF w])
  show "Header_m_top_ref data' 0 = Header_m_top_ref data 0"
    using read_u64_write_u64_other [OF w, of 0]
    by (simp add: d' Header_m_top_ref_def read_u64_list_update)
  show "Header_m_flags data' = 1"
    using len w by (simp add: d' Header_m_flags_def)
  show "Header_m_mnemonic data' = Header_m_mnemonic data"
    by (simp add: d' Header_m_mnemonic_def nth_write_u64 [OF w])
  show "i < 2 \<Longrightarrow> Header_m_file_format data' i = Header_m_file_format data i"
    by (simp add: d' Header_m_file_format_def nth_write_u64 [OF w])
  show "\<And>i. 24 \<le> i \<Longrightarrow> data' ! i = data ! i"
    by (simp add: d' nth_write_u64 [OF w])
qed


lemma validate_after_prepare:
  assumes prep: "do_prepare_for_update lib cookie s data = Inr (data', s')"
    and len: "length data = unat (m_baseline s)"
    and valid: "fst (validate_buffer lib cookie s0 data (m_baseline s) sh) = Inr r"
    and F1: "format_accepted lib sh (Header_m_file_format data 1)"
  shows "fst (validate_buffer lib cookie s1 data' (m_baseline s') sh) = Inr r"
    and "r = Footer_m_top_ref data (length data)"
proof -
  note res = prepare_for_update_result [OF prep]
  have sv: "fst (spec_validate lib cookie data sh) = Inr r"
    using valid by (simp add: validate_buffer_eq_spec [OF len])
  have sel0: "select_bit data = 0"
    by (simp add: select_bit_def res(4))
  have sz: "\<not> (length data < 24 \<or> length data mod 8 \<noteq> 0)"
    using sv by (auto simp: spec_validate_def Let_def split: if_splits)
  then have len24: "24 \<le> length data" by simp
  note b = prepare_for_update_bytes [OF prep len24]
  have chk: "spec_check_top_ref (length data) (Footer_m_top_ref data (length data)) = Inr r"
    using sv sz by (simp add: spec_validate_def Let_def sel0 res(5) res(6) split: if_splits)
  then show r: "r = Footer_m_top_ref data (length data)"
    by (simp add: spec_check_top_ref_def split: if_splits)
  have sel1: "select_bit data' = 1"
    by (simp add: select_bit_def b(4))
  have base: "m_baseline s' = m_baseline s" by (simp add: res(2))
  have len': "length data' = unat (m_baseline s')" by (simp add: b(1) len base)
  have "fst (spec_validate lib cookie data' sh) = Inr r"
    using sz F1 chk
    by (auto simp: spec_validate_def Let_def sel1 b(1) b(2) b(5) b(6) res(5) len
        format_accepted_def)
  then show "fst (validate_buffer lib cookie s1 data' (m_baseline s') sh) = Inr r"
    by (simp add: validate_buffer_eq_spec [OF len'])
qed

text \<open>
  C8 (amended). When \<^verbatim>\<open>do_prepare_for_update\<close> runs to its end on the bytes of a
  streaming-form file (no assertion fails: the streaming flag is set, \<open>T[0]\<close> is the
  sentinel, \<open>T[1]\<close> and the flags byte are zero, the footer's cookie is valid), then
  afterwards \<open>T[1]\<close> is the former footer top ref, the select bit of the flags byte is
  1 with the server-sync bit unchanged, and the streaming flag is cleared. Validating the
  resulting file yields the top ref that validating the original file yielded, which is
  the footer's, provided the file format byte \<open>F[1]\<close>, which the conversion leaves as
  it is and which becomes the current one, is a format the validation accepts.
\<close>

theorem prepare_for_update_streaming:
  assumes prep: "do_prepare_for_update lib cookie s data = Inr (data', s')"
    and len: "length data = unat (m_baseline s)"
    and big: "40 \<le> length data"
  shows "Header_m_top_ref data' 1 = Footer_m_top_ref data (length data)
       \<and> bit (Header_m_flags data') 0
       \<and> bit (Header_m_flags data') 1 = bit (Header_m_flags data) 1
       \<and> \<not> m_file_on_streaming_form s'
       \<and> (\<forall>sh r. fst (validate_buffer lib cookie s data (m_baseline s) sh) = Inr r
                 \<and> format_accepted lib sh (Header_m_file_format data 1)
             \<longrightarrow> fst (validate_buffer lib cookie s' data' (m_baseline s') sh) = Inr r
                 \<and> r = Footer_m_top_ref data (length data))"
proof -
  have len24: "24 \<le> length data" using big by simp
  note b = prepare_for_update_bytes [OF prep len24]
  note res = prepare_for_update_result [OF prep]
  show ?thesis
    using validate_after_prepare [OF prep len]
    by (auto simp: b(2) b(4) len res(2) res(4))
qed

theorem prepare_for_update_streaming_witness:
  "do_prepare_for_update 3 example_cookie streaming_alloc streaming_buffer =
     Inr (streaming_buffer[8 := 0x40, 23 := 1], streaming_alloc\<lparr>m_file_on_streaming_form := False\<rparr>)
   \<and> Header_m_top_ref (streaming_buffer[8 := 0x40, 23 := 1]) 1 = 0x40
   \<and> fst (validate_buffer 3 example_cookie streaming_alloc streaming_buffer 72 False) = Inr 0x40
   \<and> fst (validate_buffer 3 example_cookie (streaming_alloc\<lparr>m_file_on_streaming_form := False\<rparr>)
            (streaming_buffer[8 := 0x40, 23 := 1]) 72 False) = Inr 0x40"
proof -
  let ?d' = "streaming_buffer[8 := 0x40, 23 := 1]"
  let ?s' = "streaming_alloc\<lparr>m_file_on_streaming_form := False\<rparr>"
  have prep: "do_prepare_for_update 3 example_cookie streaming_alloc streaming_buffer = Inr (?d', ?s')"
    by (simp add: do_prepare_for_update_def Let_def streaming_header_def streaming_alloc_def
      detached_alloc_def streaming_buffer_def Header_m_flags_def Header_m_mnemonic_def
      Header_m_top_ref_def Footer_m_top_ref_def Footer_m_magic_cookie_def
      u64_bytes_def read_u64_def write_u64_def example_cookie_def flags_SelectBit_def
      char_T_def char_dash_def char_D_def char_B_def)
  have len: "length streaming_buffer = unat (m_baseline streaming_alloc)"
    by (simp add: streaming_buffer_def streaming_alloc_def detached_alloc_def)
  have big: "40 \<le> length streaming_buffer" by (simp add: streaming_buffer_def)
  have v: "fst (validate_buffer 3 example_cookie streaming_alloc streaming_buffer 72 False) = Inr 0x40"
    by (simp add: validate_buffer_def Let_def streaming_buffer_def read_u64_def
      example_cookie_def sizeof_Header_def sizeof_StreamingFooter_def
      char_T_def char_dash_def char_D_def char_B_def)
  have f: "format_accepted 3 False (Header_m_file_format streaming_buffer 1)"
    by (simp add: format_accepted_def Header_m_file_format_def streaming_buffer_def)
  have b: "m_baseline streaming_alloc = 72" "m_baseline ?s' = 72"
    by (simp_all add: streaming_alloc_def detached_alloc_def)
  show ?thesis
    using prepare_for_update_streaming [OF prep len big] prep v f b
    by (simp add: Footer_m_top_ref_def)
qed

text \<open>
  The claim without the proviso fails: a streaming-form file with \<open>F[0] = 3\<close> and
  \<open>F[1] = 0\<close> validates under library format 3 with top ref \<open>0x40\<close>, the conversion
  runs to its end, and the resulting file is rejected for its file format.
\<close>

theorem prepare_for_update_counterexample:
  "do_prepare_for_update 3 example_cookie streaming_alloc streaming_buffer_F1 =
     Inr (streaming_buffer_F1[8 := 0x40, 23 := 1], streaming_alloc\<lparr>m_file_on_streaming_form := False\<rparr>)
   \<and> fst (validate_buffer 3 example_cookie streaming_alloc streaming_buffer_F1 72 False) = Inr 0x40
   \<and> fst (validate_buffer 3 example_cookie (streaming_alloc\<lparr>m_file_on_streaming_form := False\<rparr>)
            (streaming_buffer_F1[8 := 0x40, 23 := 1]) 72 False)
       = Inl (InvalidDatabase UnsupportedFileFormat)"
  by (simp add: do_prepare_for_update_def Let_def streaming_header_def streaming_alloc_def
      detached_alloc_def streaming_buffer_def streaming_buffer_F1_def
      Header_m_flags_def Header_m_mnemonic_def
      Header_m_top_ref_def Footer_m_top_ref_def Footer_m_magic_cookie_def
      u64_bytes_def read_u64_def write_u64_def example_cookie_def flags_SelectBit_def
      validate_buffer_def sizeof_Header_def sizeof_StreamingFooter_def
      char_T_def char_dash_def char_D_def char_B_def)

section \<open>Attachment\<close>

lemma attach_file_mapped_Inr:
  assumes "attach_file_mapped lib cookie s env data sz dc sh sv ssm = (Inr top_ref, s', data')"
  shows "m_attach_mode s' = (if sh then attach_SharedFile else attach_UnsharedFile)"
  using assms
  by (auto simp: attach_file_mapped_def Let_def split: if_splits prod.splits sum.splits)

lemma attach_file_Inr:
  assumes "attach_file lib cookie s env sh ro nc sv ssm = (Inr top_ref, s', f')"
  shows "m_free_space_state s' = free_space_Invalid" and "is_attached s'"
  using assms
  by (auto simp: attach_file_def Let_def is_attached_def
      split: if_splits prod.splits sum.splits option.splits dest!: attach_file_mapped_Inr)

lemma do_alloc_Invalid:
  assumes "m_free_space_state s = free_space_Invalid" "is_attached s" "0 < sz" "sz AND 7 = 0"
  shows "do_alloc s sz e = (Inl InvalidFreeSpace, s)"
  using assms by (simp add: do_alloc_def)

lemma attach_buffer_Inr:
  assumes "attach_buffer lib cookie s a data sz = (Inr top_ref, s')"
  shows "m_free_space_state s' = m_free_space_state s"
  using assms
  by (auto simp: attach_buffer_def Let_def validate_buffer_def
      split: if_splits prod.splits sum.splits)

lemma attach_empty_Inr:
  assumes "attach_empty s = Inr s'"
  shows "m_free_space_state s' = m_free_space_state s" "m_data s' = nullptr"
  using assms by (auto simp: attach_empty_def split: if_splits)

text \<open>
  C9 (amended). After a successful \<^verbatim>\<open>attach_file\<close> the free-space state is Invalid,
  so that every allocation fails with \<open>InvalidFreeSpace\<close> until the free-space tracking
  is reset. \<^verbatim>\<open>attach_buffer\<close> and \<^verbatim>\<open>attach_empty\<close> do not assign the free-space
  state: after them it is what it was before the call.
\<close>

theorem attach_free_space_state:
  "(\<forall>top_ref s' f'. attach_file lib cookie s env sh ro nc sv ssm = (Inr top_ref, s', f') \<longrightarrow>
       m_free_space_state s' = free_space_Invalid
     \<and> (\<forall>sz e. 0 < sz \<and> sz AND 7 = 0 \<longrightarrow> do_alloc s' sz e = (Inl InvalidFreeSpace, s')))
   \<and> (\<forall>top_ref s'. attach_buffer lib cookie s a data bsz = (Inr top_ref, s') \<longrightarrow>
       m_free_space_state s' = m_free_space_state s)
   \<and> (\<forall>s'. attach_empty s = Inr s' \<longrightarrow> m_free_space_state s' = m_free_space_state s)"
  by (auto dest: attach_file_Inr attach_buffer_Inr attach_empty_Inr(1) intro!: do_alloc_Invalid)


theorem attach_free_space_state_witness:
  "attach_file 3 example_cookie detached_alloc fresh_file_env False False False False False =
     (Inr 0,
      detached_alloc\<lparr>m_file_format := 3, m_data := 0x10000, m_baseline := 4096,
        m_attach_mode := attach_UnsharedFile, m_free_space_state := free_space_Invalid\<rparr>,
      Some (empty_file_header 3 @ replicate 4072 0))
   \<and> do_alloc (detached_alloc\<lparr>m_file_format := 3, m_data := 0x10000, m_baseline := 4096,
        m_attach_mode := attach_UnsharedFile, m_free_space_state := free_space_Invalid\<rparr>) 8
        \<lparr>new_char_array = Some 0x20000, slabs_push_back_ok = True, free_space_push_back_ok = True\<rparr>
      = (Inl InvalidFreeSpace, detached_alloc\<lparr>m_file_format := 3, m_data := 0x10000, m_baseline := 4096,
        m_attach_mode := attach_UnsharedFile, m_free_space_state := free_space_Invalid\<rparr>)"
proof -
  let ?s' = "detached_alloc\<lparr>m_file_format := 3, m_data := 0x10000, m_baseline := 4096,
        m_attach_mode := attach_UnsharedFile, m_free_space_state := free_space_Invalid\<rparr>"
  have len: "length (empty_file_header 3) = 24" by (simp add: empty_file_header_def)
  have nth: "\<And>i. i < 24 \<Longrightarrow> (empty_file_header 3 @ replicate 4072 0) ! i = empty_file_header 3 ! i"
    by (simp add: nth_append len)
  have hdr: "empty_file_header 3 = [0,0,0,0,0,0,0,0, 0,0,0,0,0,0,0,0, 0x54, 0x2D, 0x44, 0x42, 3, 3, 0, 0]"
    by (simp add: empty_file_header_def u64_bytes_def char_T_def char_dash_def char_D_def char_B_def)
  have v: "validate_buffer 3 example_cookie (detached_alloc\<lparr>m_file_on_streaming_form := False\<rparr>)
             (empty_file_header 3 @ replicate 4072 0) 4096 False
           = (Inr 0, detached_alloc\<lparr>m_file_on_streaming_form := False\<rparr>)"
    by (simp add: validate_buffer_def Let_def nth read_u64_def sizeof_Header_def, simp add: hdr
        char_T_def char_dash_def char_D_def char_B_def)
  have af: "attach_file 3 example_cookie detached_alloc fresh_file_env False False False False False =
     (Inr 0, ?s', Some (empty_file_header 3 @ replicate 4072 0))"
    by (simp add: attach_file_def attach_file_mapped_def Let_def fresh_file_env_def len v
        is_attached_def header_file_format_def Header_m_flags_def Header_m_file_format_def nth
        flags_SelectBit_def,
        simp add: detached_alloc_def hdr)
  have "0 < (8::size_t) \<and> (8::size_t) AND 7 = 0" by simp
  with attach_free_space_state [of 3 example_cookie detached_alloc fresh_file_env False False False False False]
    af show ?thesis by blast
qed

text \<open>
  The claim fails for the two attach operations that are not \<^verbatim>\<open>attach_file\<close>: on an
  allocator whose free-space state is Clean, \<^verbatim>\<open>attach_empty\<close> and a successful
  \<^verbatim>\<open>attach_buffer\<close> both leave it Clean.
\<close>

theorem attach_free_space_state_counterexample:
  "attach_empty detached_alloc =
     Inr (detached_alloc\<lparr>m_attach_mode := attach_OwnedBuffer, m_data := nullptr, m_baseline := 24\<rparr>)
   \<and> m_free_space_state
        (detached_alloc\<lparr>m_attach_mode := attach_OwnedBuffer, m_data := nullptr, m_baseline := 24\<rparr>)
      = free_space_Clean
   \<and> attach_buffer 3 example_cookie detached_alloc 0x10000 streaming_buffer 72 =
     (Inr 0x40, detached_alloc\<lparr>m_file_on_streaming_form := True, m_file_format := 3,
        m_data := 0x10000, m_baseline := 72, m_attach_mode := attach_UsersBuffer\<rparr>)
   \<and> m_free_space_state
        (detached_alloc\<lparr>m_file_on_streaming_form := True, m_file_format := 3,
           m_data := 0x10000, m_baseline := 72, m_attach_mode := attach_UsersBuffer\<rparr>)
      = free_space_Clean"
  by (simp add: attach_empty_def attach_buffer_def is_attached_def detached_alloc_def
      sizeof_Header_def validate_buffer_def Let_def streaming_buffer_def read_u64_def
      example_cookie_def sizeof_StreamingFooter_def header_file_format_def
      Header_m_flags_def Header_m_file_format_def flags_SelectBit_def
      char_T_def char_dash_def char_D_def char_B_def)

section \<open>The committed file format\<close>

lemma select_field_cases:
  "(flags::byte) AND flags_SelectBit = (if bit flags 0 then 1 else 0)"
  by (simp add: flags_SelectBit_def and_one_eq bit_0 even_iff_mod_2_eq_zero odd_iff_mod_2_eq_one)

lemma get_committed_file_format_mapped:
  assumes nn: "m_data s \<noteq> nullptr"
    and mapped: "\<And>i. i < 24 \<Longrightarrow> mem (m_data s + of_nat i) = Some (hdr ! i)"
  shows "get_committed_file_format s mem = Inr (uint (Header_m_file_format hdr (select_bit hdr)))"
proof -
  have f: "mem (m_data s + 23) = Some (hdr ! 23)" using mapped [of 23] by simp
  have f0: "mem (m_data s + 20) = Some (hdr ! 20)" using mapped [of 20] by simp
  have f1: "mem (m_data s + 21) = Some (hdr ! 21)" using mapped [of 21] by simp
  show ?thesis
    using nn f f0 f1
    by (simp add: get_committed_file_format_def Let_def select_field_cases select_bit_def
        Header_m_flags_def Header_m_file_format_def add.assoc)
qed

text \<open>
  C10. \<^verbatim>\<open>get_committed_file_format\<close> reads the header through \<^verbatim>\<open>m_data\<close> without any
  check. After \<^verbatim>\<open>attach_empty\<close>, \<^verbatim>\<open>m_data\<close> is the null pointer and the call
  dereferences it, whatever the memory holds. When \<^verbatim>\<open>m_data\<close> is not null and the 24
  bytes of a header are mapped there, the call returns the file format byte that the
  select bit of that header designates. The precondition of the call is therefore that
  \<^verbatim>\<open>m_data\<close> points at a header: the allocator is attached to a file or a buffer.
\<close>

theorem get_committed_file_format_requires_data:
  "(\<forall>s'. attach_empty s = Inr s' \<longrightarrow>
       m_data s' = nullptr \<and> get_committed_file_format s' mem = Inl NullDereference)
   \<and> (m_data s \<noteq> nullptr \<and> (\<forall>i<24. mem (m_data s + of_nat i) = Some (hdr ! i)) \<longrightarrow>
       get_committed_file_format s mem = Inr (uint (Header_m_file_format hdr (select_bit hdr))))"
  using get_committed_file_format_mapped [of s mem hdr]
  by (auto simp: get_committed_file_format_def dest: attach_empty_Inr(2))


lemma streaming_memory_mapped:
  assumes "i < 24"
  shows "streaming_memory (m_data streaming_alloc + of_nat i) = Some (streaming_buffer ! i)"
proof -
  have u: "unat (of_nat i :: 64 word) = i"
    using assms by (simp add: unat_of_nat)
  have a: "unat (0x10000 + of_nat i :: 64 word) = 65536 + i"
    using assms u by (simp add: unat_word_ariths)
  have d: "(0x10000 + of_nat i :: 64 word) - 0x10000 = of_nat i" by simp
  show ?thesis
    using assms a
    by (simp add: streaming_memory_def streaming_alloc_def detached_alloc_def
        word_le_nat_alt word_less_nat_alt d u)
qed

theorem get_committed_file_format_requires_data_witness:
  "attach_empty detached_alloc =
     Inr (detached_alloc\<lparr>m_attach_mode := attach_OwnedBuffer, m_data := nullptr, m_baseline := 24\<rparr>)
   \<and> get_committed_file_format
        (detached_alloc\<lparr>m_attach_mode := attach_OwnedBuffer, m_data := nullptr, m_baseline := 24\<rparr>)
        streaming_memory = Inl NullDereference
   \<and> get_committed_file_format streaming_alloc streaming_memory = Inr 3"
proof -
  have ae: "attach_empty detached_alloc =
     Inr (detached_alloc\<lparr>m_attach_mode := attach_OwnedBuffer, m_data := nullptr, m_baseline := 24\<rparr>)"
    by (simp add: attach_empty_def is_attached_def detached_alloc_def sizeof_Header_def)
  have nn: "m_data streaming_alloc \<noteq> nullptr"
    by (simp add: streaming_alloc_def detached_alloc_def nullptr_def)
  have f: "uint (Header_m_file_format streaming_buffer (select_bit streaming_buffer)) = 3"
    by (simp add: Header_m_file_format_def select_bit_def Header_m_flags_def streaming_buffer_def)
  show ?thesis
    using get_committed_file_format_requires_data
      [of detached_alloc streaming_memory, THEN conjunct1]
    get_committed_file_format_requires_data
      [of streaming_alloc streaming_memory streaming_buffer, THEN conjunct2]
    ae nn f streaming_memory_mapped
    by simp
qed

section \<open>The slab list and the binary search\<close>

lemma upper_bound_from_spec:
  assumes "ends_sorted slabs" and "first + len \<le> length slabs"
  shows "first \<le> upper_bound_from slabs r first len
       \<and> upper_bound_from slabs r first len \<le> first + len
       \<and> (\<forall>i. first \<le> i \<and> i < upper_bound_from slabs r first len \<longrightarrow> ref_end (slabs ! i) \<le> r)
       \<and> (\<forall>i. upper_bound_from slabs r first len \<le> i \<and> i < first + len \<longrightarrow> r < ref_end (slabs ! i))"
  using assms
proof (induction slabs r first len rule: upper_bound_from.induct)
  case (1 slabs r first len)
  show ?case
  proof (cases "len = 0")
    case True
    then have "upper_bound_from slabs r first len = first"
      by (subst upper_bound_from.simps) simp
    then show ?thesis using True by auto
  next
    case False
    define half where "half = len div 2"
    define middle where "middle = first + half"
    have hl: "half < len" using False by (simp add: half_def)
    have mid: "middle < length slabs" using hl "1.prems"(2) by (simp add: middle_def)
    show ?thesis
    proof (cases "ref_less_than_slab_ref_end r (slabs ! middle)")
      case True
      have eq: "upper_bound_from slabs r first len = upper_bound_from slabs r first half"
        using False True by (subst upper_bound_from.simps) (simp add: half_def middle_def Let_def)
      have IH: "first \<le> upper_bound_from slabs r first half
       \<and> upper_bound_from slabs r first half \<le> first + half
       \<and> (\<forall>i. first \<le> i \<and> i < upper_bound_from slabs r first half \<longrightarrow> ref_end (slabs ! i) \<le> r)
       \<and> (\<forall>i. upper_bound_from slabs r first half \<le> i \<and> i < first + half \<longrightarrow> r < ref_end (slabs ! i))"
        using "1.IH"(1) [OF False half_def middle_def True "1.prems"(1)] hl "1.prems"(2)
        by simp
      have above: "r < ref_end (slabs ! i)" if "middle \<le> i" "i < first + len" for i
      proof -
        have "ref_end (slabs ! middle) \<le> ref_end (slabs ! i)"
          using "1.prems" that by (simp add: ends_sorted_def)
        moreover have "r < ref_end (slabs ! middle)"
          using True by (simp add: ref_less_than_slab_ref_end_def)
        ultimately show ?thesis by simp
      qed
      show ?thesis
        unfolding eq
      proof (intro conjI allI impI)
        show "first \<le> upper_bound_from slabs r first half" using IH by simp
        show "upper_bound_from slabs r first half \<le> first + len" using IH hl by simp
        show "ref_end (slabs ! i) \<le> r"
          if "first \<le> i \<and> i < upper_bound_from slabs r first half" for i
          using IH that by simp
        show "r < ref_end (slabs ! i)"
          if a: "upper_bound_from slabs r first half \<le> i \<and> i < first + len" for i
        proof (cases "i < first + half")
          case True
          with IH a show ?thesis by simp
        next
          case False
          then show ?thesis using above [of i] a by (simp add: middle_def)
        qed
      qed
    next
      case nless: False
      have eq: "upper_bound_from slabs r first len =
                upper_bound_from slabs r (middle + 1) (len - half - 1)"
        using False nless by (subst upper_bound_from.simps) (simp add: half_def middle_def Let_def)
      have IH: "middle + 1 \<le> upper_bound_from slabs r (middle + 1) (len - half - 1)
       \<and> upper_bound_from slabs r (middle + 1) (len - half - 1) \<le> middle + 1 + (len - half - 1)
       \<and> (\<forall>i. middle + 1 \<le> i \<and> i < upper_bound_from slabs r (middle + 1) (len - half - 1) \<longrightarrow> ref_end (slabs ! i) \<le> r)
       \<and> (\<forall>i. upper_bound_from slabs r (middle + 1) (len - half - 1) \<le> i \<and> i < middle + 1 + (len - half - 1) \<longrightarrow> r < ref_end (slabs ! i))"
        using "1.IH"(2) [OF False half_def middle_def nless "1.prems"(1)] hl "1.prems"(2)
        by (simp add: middle_def)
      have e: "middle + 1 + (len - half - 1) = first + len"
        using hl by (simp add: middle_def)
      have below: "ref_end (slabs ! i) \<le> r" if "i \<le> middle" for i
      proof -
        have "ref_end (slabs ! i) \<le> ref_end (slabs ! middle)"
          using "1.prems" that mid by (simp add: ends_sorted_def)
        moreover have "ref_end (slabs ! middle) \<le> r"
          using nless by (simp add: ref_less_than_slab_ref_end_def)
        ultimately show ?thesis by simp
      qed
      show ?thesis
        unfolding eq
      proof (intro conjI allI impI)
        show "first \<le> upper_bound_from slabs r (middle + 1) (len - half - 1)"
          using IH by (simp add: middle_def)
        show "upper_bound_from slabs r (middle + 1) (len - half - 1) \<le> first + len"
          using IH e by simp
        show "ref_end (slabs ! i) \<le> r"
          if a: "first \<le> i \<and> i < upper_bound_from slabs r (middle + 1) (len - half - 1)" for i
        proof (cases "i \<le> middle")
          case True
          then show ?thesis by (rule below)
        next
          case False
          then show ?thesis using IH a by simp
        qed
        show "r < ref_end (slabs ! i)"
          if "upper_bound_from slabs r (middle + 1) (len - half - 1) \<le> i \<and> i < first + len" for i
          using IH that e by simp
      qed
    qed
  qed
qed

lemma slabs_wfD:
  "slabs_wf b slabs \<Longrightarrow> i < length slabs \<Longrightarrow> slab_ref b slabs i < ref_end (slabs ! i)"
  by (simp add: slabs_wf_def)

lemma slab_ref_Suc: "slab_ref b slabs (Suc i) = ref_end (slabs ! i)"
  by (simp add: slab_ref_def)

lemma slabs_wf_mono:
  assumes "slabs_wf b slabs" and "j < length slabs" and "i < j"
  shows "ref_end (slabs ! i) < ref_end (slabs ! j)"
  using assms(2,3)
proof (induction j)
  case 0
  then show ?case by simp
next
  case (Suc j)
  have step: "ref_end (slabs ! j) < ref_end (slabs ! Suc j)"
    using slabs_wfD [OF assms(1) Suc.prems(1)] by (simp add: slab_ref_Suc)
  show ?case
  proof (cases "i = j")
    case True
    then show ?thesis using step by simp
  next
    case False
    then have "ref_end (slabs ! i) < ref_end (slabs ! j)"
      using Suc by simp
    then show ?thesis using step by simp
  qed
qed

lemma slabs_wf_sorted: "slabs_wf b slabs \<Longrightarrow> ends_sorted slabs"
  unfolding ends_sorted_def
proof (intro allI impI)
  fix i j
  assume wf: "slabs_wf b slabs" and ij: "i \<le> j \<and> j < length slabs"
  show "ref_end (slabs ! i) \<le> ref_end (slabs ! j)"
  proof (cases "i = j")
    case True
    then show ?thesis by simp
  next
    case False
    then have "ref_end (slabs ! i) < ref_end (slabs ! j)"
      using slabs_wf_mono [OF wf, of j i] ij by simp
    then show ?thesis by simp
  qed
qed

lemma slabs_wf_baseline_le:
  assumes "slabs_wf b slabs" and "i < length slabs"
  shows "b \<le> slab_ref b slabs i" and "b < ref_end (slabs ! i)"
proof -
  show "b \<le> slab_ref b slabs i"
  proof (cases i)
    case 0
    then show ?thesis by (simp add: slab_ref_def)
  next
    case (Suc k)
    have "slab_ref b slabs 0 < ref_end (slabs ! 0)"
      using assms by (intro slabs_wfD) auto
    moreover have "ref_end (slabs ! 0) \<le> ref_end (slabs ! k)"
      using slabs_wf_sorted [OF assms(1)] assms(2) Suc by (simp add: ends_sorted_def)
    ultimately show ?thesis using Suc by (simp add: slab_ref_def)
  qed
  then show "b < ref_end (slabs ! i)"
    using slabs_wfD [OF assms] by simp
qed

lemma upper_bound_spec:
  assumes "ends_sorted slabs"
  shows "upper_bound slabs r \<le> length slabs"
    and "\<And>i. i < upper_bound slabs r \<Longrightarrow> ref_end (slabs ! i) \<le> r"
    and "\<And>i. upper_bound slabs r \<le> i \<Longrightarrow> i < length slabs \<Longrightarrow> r < ref_end (slabs ! i)"
  using upper_bound_from_spec [OF assms, where first = 0 and len = "length slabs" and r = r]
  by (simp_all add: upper_bound_def)

lemma upper_bound_in_slab:
  assumes wf: "slabs_wf b slabs" and i: "i < length slabs"
    and lo: "slab_ref b slabs i \<le> r" and hi: "r < ref_end (slabs ! i)"
  shows "upper_bound slabs r = i"
proof -
  note ub = upper_bound_spec [OF slabs_wf_sorted [OF wf], where r = r]
  have "\<not> i < upper_bound slabs r"
    using ub(2) [of i] hi by auto
  moreover have "\<not> upper_bound slabs r < i"
  proof
    assume less: "upper_bound slabs r < i"
    then obtain k where k: "i = Suc k" by (cases i) auto
    have "r < ref_end (slabs ! k)"
      using ub(3) [of k] less k i by simp
    then show False using lo k by (simp add: slab_ref_def)
  qed
  ultimately show ?thesis by simp
qed

lemma upper_bound_end:
  assumes "ends_sorted slabs"
  shows "(upper_bound slabs r = length slabs) = (\<forall>i < length slabs. ref_end (slabs ! i) \<le> r)"
proof
  assume "upper_bound slabs r = length slabs"
  then show "\<forall>i < length slabs. ref_end (slabs ! i) \<le> r"
    using upper_bound_spec(2) [OF assms, where r = r] by simp
next
  assume all: "\<forall>i < length slabs. ref_end (slabs ! i) \<le> r"
  show "upper_bound slabs r = length slabs"
  proof (rule ccontr)
    assume "upper_bound slabs r \<noteq> length slabs"
    then have less: "upper_bound slabs r < length slabs"
      using upper_bound_spec(1) [OF assms, where r = r] by simp
    then have "r < ref_end (slabs ! upper_bound slabs r)"
      using upper_bound_spec(3) [OF assms, where r = r and i = "upper_bound slabs r"] by simp
    then show False using all less by (auto simp: not_less [symmetric])
  qed
qed

section \<open>Translation of refs\<close>

lemma translate_below_baseline:
  "is_attached s \<Longrightarrow> r < m_baseline s \<Longrightarrow> translate s r = Inr (m_data s + r)"
  by (simp add: translate_def do_translate_def)

lemma translate_in_slab:
  assumes att: "is_attached s" and wf: "slabs_wf (m_baseline s) (m_slabs s)"
    and i: "i < length (m_slabs s)"
    and lo: "slab_ref (m_baseline s) (m_slabs s) i \<le> r" and hi: "r < ref_end (m_slabs s ! i)"
  shows "translate s r = Inr (addr (m_slabs s ! i) + (r - slab_ref (m_baseline s) (m_slabs s) i))"
proof -
  have "m_baseline s \<le> r"
    using slabs_wf_baseline_le(1) [OF wf i] lo by simp
  then have nb: "\<not> r < m_baseline s" by simp
  have ub: "upper_bound (m_slabs s) r = i"
    by (rule upper_bound_in_slab [OF wf i lo hi])
  show ?thesis
    using att nb i by (simp add: translate_def do_translate_def ub Let_def slab_ref_def)
qed

lemma slab_unique:
  assumes wf: "slabs_wf b slabs"
    and i: "i < length slabs" "slab_ref b slabs i \<le> r" "r < ref_end (slabs ! i)"
    and j: "j < length slabs" "slab_ref b slabs j \<le> r" "r < ref_end (slabs ! j)"
  shows "i = j"
  using upper_bound_in_slab [OF wf i] upper_bound_in_slab [OF wf j] by simp

lemma slab_ref_append:
  "i \<le> length slabs \<Longrightarrow> slab_ref b (slabs @ [x]) i = slab_ref b slabs i"
  by (auto simp: slab_ref_def nth_append)

lemma slab_ref_length:
  "slab_ref b slabs (length slabs) = (if slabs = [] then b else ref_end (last slabs))"
  by (simp add: slab_ref_def last_conv_nth)

lemma new_slab_ref_eq: "new_slab_ref s = slab_ref (m_baseline s) (m_slabs s) (length (m_slabs s))"
  by (simp add: new_slab_ref_def slab_ref_length)

lemma slabs_wf_iff:
  "slabs_wf b slabs = (\<forall>i < length slabs. slab_ref b slabs i < ref_end (slabs ! i))"
  by (auto simp: slabs_wf_def)

lemma slabs_wf_append:
  "slabs_wf b (slabs @ [x]) =
     (slabs_wf b slabs \<and> slab_ref b slabs (length slabs) < ref_end x)"
proof
  assume wf: "slabs_wf b (slabs @ [x])"
  have "slab_ref b (slabs @ [x]) (length slabs) < ref_end ((slabs @ [x]) ! length slabs)"
    using slabs_wfD [OF wf, of "length slabs"] by simp
  moreover have "slabs_wf b slabs"
    unfolding slabs_wf_iff
  proof (intro allI impI)
    fix i assume i: "i < length slabs"
    then show "slab_ref b slabs i < ref_end (slabs ! i)"
      using slabs_wfD [OF wf, of i] by (simp add: slab_ref_append nth_append)
  qed
  ultimately show "slabs_wf b slabs \<and> slab_ref b slabs (length slabs) < ref_end x"
    by (simp add: slab_ref_append)
next
  assume "slabs_wf b slabs \<and> slab_ref b slabs (length slabs) < ref_end x"
  then show "slabs_wf b (slabs @ [x])"
    by (auto simp: slabs_wf_iff slab_ref_append nth_append less_Suc_eq)
qed

lemma do_alloc_translate:
  assumes al: "do_alloc s sz env = (Inr mr, s')"
    and wf': "slabs_wf (m_baseline s') (m_slabs s')"
  shows "translate s' (m_ref mr) = Inr (m_addr mr)"
proof (cases "scan_free_space (m_free_space s) sz (length (m_free_space s))")
  case (Some i)
  with al show ?thesis
    by (auto simp: do_alloc_def Let_def translate_def do_translate_def is_attached_def
        split: if_splits sum.splits)
next
  case None
  from al None obtain mem where
    mr: "mr = \<lparr>m_addr = mem, m_ref = new_slab_ref s\<rparr>"
    and slabs': "m_slabs s' = m_slabs s @ [\<lparr>ref_end = new_slab_ref s + new_slab_size s sz, addr = mem\<rparr>]"
    and base: "m_baseline s' = m_baseline s"
    and att: "is_attached s'"
    by (auto simp: do_alloc_def Let_def new_slab_ref_def new_slab_size_def is_attached_def
        split: if_splits option.splits)
  let ?x = "\<lparr>ref_end = new_slab_ref s + new_slab_size s sz, addr = mem\<rparr>"
  let ?n = "length (m_slabs s)"
  have lo: "slab_ref (m_baseline s') (m_slabs s') ?n = new_slab_ref s"
    by (simp add: slabs' base slab_ref_append new_slab_ref_eq)
  have hi: "new_slab_ref s < ref_end (m_slabs s' ! ?n)"
    using wf' by (simp add: slabs' base slabs_wf_append new_slab_ref_eq)
  have "translate s' (new_slab_ref s) =
        Inr (addr (m_slabs s' ! ?n) + (new_slab_ref s - slab_ref (m_baseline s') (m_slabs s') ?n))"
    using lo hi by (intro translate_in_slab [OF att wf']) (simp_all add: slabs')
  then show ?thesis using lo by (simp add: mr slabs')
qed


lemma slab_exists:
  assumes wf: "slabs_wf (m_baseline s) (m_slabs s)"
    and lo: "m_baseline s \<le> r" and hi: "r < get_total_size s"
  shows "\<exists>i < length (m_slabs s). slab_ref (m_baseline s) (m_slabs s) i \<le> r \<and> r < ref_end (m_slabs s ! i)"
proof -
  let ?slabs = "m_slabs s"
  let ?k = "upper_bound ?slabs r"
  note ub = upper_bound_spec [OF slabs_wf_sorted [OF wf], where r = r]
  have ne: "?slabs \<noteq> []" using lo hi by (auto simp: get_total_size_def)
  then have last: "r < ref_end (?slabs ! (length ?slabs - 1))"
    using hi by (simp add: get_total_size_def last_conv_nth)
  have "?k \<noteq> length ?slabs"
  proof
    assume "?k = length ?slabs"
    then have "ref_end (?slabs ! (length ?slabs - 1)) \<le> r"
      using ub(2) [of "length ?slabs - 1"] ne by simp
    then show False using last by simp
  qed
  then have k: "?k < length ?slabs" using ub(1) by simp
  have "slab_ref (m_baseline s) ?slabs ?k \<le> r"
    using ub(2) [of "?k - 1"] lo by (auto simp: slab_ref_def)
  moreover have "r < ref_end (?slabs ! ?k)" using ub(3) [of ?k] k by simp
  ultimately show ?thesis using k by blast
qed

text \<open>
  C7. On an attached allocator with a well-formed slab list, \<^verbatim>\<open>translate(ref)\<close> returns
  \<^verbatim>\<open>m_data + ref\<close> when \<open>ref < B\<close>; a ref from \<open>B\<close> up to the total size lies in the
  range of some slab; when the range of a slab contains the ref, that slab is the only
  one, and the result is the address of that slab plus the ref minus the slab's start.
  Consequently the address of every \<^verbatim>\<open>MemRef\<close> returned by a successful \<^verbatim>\<open>alloc\<close> is
  \<^verbatim>\<open>translate\<close> applied to its ref.
\<close>

theorem translate_ref_to_address:
  assumes att: "is_attached s" and wf: "slabs_wf (m_baseline s) (m_slabs s)"
  shows "(r < m_baseline s \<longrightarrow> translate s r = Inr (m_data s + r))
    \<and> (m_baseline s \<le> r \<and> r < get_total_size s \<longrightarrow>
         (\<exists>i < length (m_slabs s).
            slab_ref (m_baseline s) (m_slabs s) i \<le> r \<and> r < ref_end (m_slabs s ! i)))
    \<and> (\<forall>i. i < length (m_slabs s) \<and> slab_ref (m_baseline s) (m_slabs s) i \<le> r
             \<and> r < ref_end (m_slabs s ! i) \<longrightarrow>
          translate s r = Inr (addr (m_slabs s ! i) + (r - slab_ref (m_baseline s) (m_slabs s) i))
          \<and> (\<forall>j. j < length (m_slabs s) \<and> slab_ref (m_baseline s) (m_slabs s) j \<le> r
                  \<and> r < ref_end (m_slabs s ! j) \<longrightarrow> j = i))
    \<and> (\<forall>sz env mr s'. do_alloc s sz env = (Inr mr, s')
             \<and> slabs_wf (m_baseline s') (m_slabs s') \<longrightarrow>
          translate s' (m_ref mr) = Inr (m_addr mr))"
proof (intro conjI allI impI)
  show "translate s r = Inr (m_data s + r)" if "r < m_baseline s"
    using att that by (rule translate_below_baseline)
  show "\<exists>i < length (m_slabs s).
            slab_ref (m_baseline s) (m_slabs s) i \<le> r \<and> r < ref_end (m_slabs s ! i)"
    if "m_baseline s \<le> r \<and> r < get_total_size s"
    using slab_exists [OF wf] that by simp
  show "translate s r = Inr (addr (m_slabs s ! i) + (r - slab_ref (m_baseline s) (m_slabs s) i))"
    if "i < length (m_slabs s) \<and> slab_ref (m_baseline s) (m_slabs s) i \<le> r
             \<and> r < ref_end (m_slabs s ! i)" for i
    using translate_in_slab [OF att wf] that by simp
  show "j = i"
    if "i < length (m_slabs s) \<and> slab_ref (m_baseline s) (m_slabs s) i \<le> r
             \<and> r < ref_end (m_slabs s ! i)"
      and "j < length (m_slabs s) \<and> slab_ref (m_baseline s) (m_slabs s) j \<le> r
                  \<and> r < ref_end (m_slabs s ! j)" for i j
    using slab_unique [OF wf, of j r i] that by simp
  show "translate s' (m_ref mr) = Inr (m_addr mr)"
    if "do_alloc s sz env = (Inr mr, s') \<and> slabs_wf (m_baseline s') (m_slabs s')"
    for sz env mr s'
    using do_alloc_translate that by blast
qed

lemma do_alloc_empty_8:
  "do_alloc empty_alloc 8 good_heap = (Inr \<lparr>m_addr = 0x20000, m_ref = 24\<rparr>, one_slab_alloc)"
  by (simp add: do_alloc_def Let_def empty_alloc_def detached_alloc_def good_heap_def good_heap_at_def
      one_slab_alloc_def is_attached_def new_slab_size_def new_slab_ref_def)

theorem translate_ref_to_address_witness:
  "is_attached empty_alloc \<and> slabs_wf (m_baseline empty_alloc) (m_slabs empty_alloc)
   \<and> translate empty_alloc 16 = Inr 16
   \<and> do_alloc empty_alloc 8 good_heap = (Inr \<lparr>m_addr = 0x20000, m_ref = 24\<rparr>, one_slab_alloc)
   \<and> translate one_slab_alloc 24 = Inr 0x20000"
proof -
  have att: "is_attached empty_alloc"
    by (simp add: is_attached_def empty_alloc_def detached_alloc_def)
  have wf: "slabs_wf (m_baseline empty_alloc) (m_slabs empty_alloc)"
    by (simp add: slabs_wf_def empty_alloc_def detached_alloc_def)
  have wf': "slabs_wf (m_baseline one_slab_alloc) (m_slabs one_slab_alloc)"
    by (simp add: slabs_wf_def slab_ref_def one_slab_alloc_def empty_alloc_def detached_alloc_def)
  have b: "(16::64 word) < m_baseline empty_alloc" "m_data empty_alloc = 0"
    by (simp_all add: empty_alloc_def detached_alloc_def nullptr_def)
  note t = translate_ref_to_address [OF att wf, of 16]
  have c1: "translate empty_alloc 16 = Inr 16"
    using t b by simp
  have "translate one_slab_alloc (m_ref \<lparr>m_addr = 0x20000, m_ref = 24\<rparr>)
        = Inr (m_addr \<lparr>m_addr = 0x20000, m_ref = 24\<rparr>)"
    using t do_alloc_empty_8 wf' by blast
  then have c2: "translate one_slab_alloc 24 = Inr 0x20000" by simp
  show ?thesis using att wf c1 c2 do_alloc_empty_8 by simp
qed

section \<open>Allocation: the growth of the slab list\<close>

lemma and_7_mod_8: "((sz::64 word) AND 7 = 0) = (sz mod 8 = 0)"
proof -
  have "sz AND 7 = sz AND mask 3" by (simp add: mask_numeral)
  also have "\<dots> = take_bit 3 sz" by (simp add: take_bit_eq_mask)
  also have "\<dots> = sz mod 8" by (simp add: take_bit_eq_mod)
  finally show ?thesis by simp
qed

lemma or_255_plus_1:
  fixes x :: "64 word"
  shows "(x OR 255) + 1 = (x - x mod 256) + 256"
proof -
  have "x AND 255 = x AND mask 8" by (simp add: mask_numeral)
  also have "\<dots> = take_bit 8 x" by (simp add: take_bit_eq_mask)
  also have "\<dots> = x mod 256" by (simp add: take_bit_eq_mod)
  finally have a: "x AND 255 = x mod 256" .
  have "(x AND 255) + (x OR 255) = x + 255" by (rule word_plus_and_or)
  then have "x mod 256 + (x OR 255) = x + 255" by (simp only: a)
  then have "(x OR 255) = x + 255 - x mod 256"
    by (simp only: eq_diff_eq add.commute)
  then show ?thesis by (simp only: diff_add_eq add.assoc diff_diff_eq2 [symmetric]) simp
qed

lemma round_up_256_alt: "0 < n \<Longrightarrow> round_up_256 n = (n - 1) - (n - 1) mod 256 + 256"
proof -
  assume "0 < n"
  then obtain m where n: "n = Suc m" by (cases n) auto
  have d: "(m + 256) div 256 = m div 256 + 1"
    using div_add_self2 [of 256 m] by simp
  have "round_up_256 n = (m + 256) div 256 * 256"
    by (simp add: round_up_256_def n add.commute)
  also have "\<dots> = m div 256 * 256 + 256" by (simp only: d) simp
  also have "m div 256 * 256 = m - m mod 256"
    by (simp add: minus_mod_eq_div_mult)
  finally show ?thesis by (simp add: n)
qed

lemma unat_round_up:
  fixes sz :: "64 word"
  assumes pos: "0 < sz" and fit: "round_up_256 (unat sz) < 2 ^ 64"
  shows "unat (((sz - 1) OR 255) + 1) = round_up_256 (unat sz)"
proof -
  let ?x = "sz - 1"
  have p: "0 < unat sz" using pos by (simp add: word_less_nat_alt)
  have ux: "unat ?x = unat sz - 1" using pos by (simp add: unat_minus_one word_neq_0_conv)
  have um: "unat (?x mod 256) = unat ?x mod 256" by (simp add: unat_mod)
  have le: "?x mod 256 \<le> ?x" by (simp add: word_le_nat_alt um)
  have ud: "unat (?x - ?x mod 256) = unat ?x - unat ?x mod 256"
    using le by (simp add: unat_sub um)
  have r: "round_up_256 (unat sz) = (unat ?x - unat ?x mod 256) + 256"
    using round_up_256_alt [OF p] by (simp only: ux)
  have "unat (?x - ?x mod 256) + unat (256::64 word) < 2 ^ LENGTH(64)"
    using fit by (simp only: r ud) simp
  then have "unat ((?x - ?x mod 256) + 256) = unat (?x - ?x mod 256) + unat (256::64 word)"
    by (simp only: unat_add_lem)
  then show ?thesis
    by (simp only: or_255_plus_1 ud r) simp
qed

lemma scan_free_space_None:
  "(scan_free_space fs sz n = None) = (\<forall>j < n. \<not> sz \<le> size (fs ! j))"
  by (induction n) (auto simp: less_Suc_eq)

lemma scan_free_space_Some:
  "scan_free_space fs sz n = Some i \<Longrightarrow>
     i < n \<and> sz \<le> size (fs ! i) \<and> (\<forall>j. i < j \<and> j < n \<longrightarrow> \<not> sz \<le> size (fs ! j))"
  by (induction n) (auto simp: less_Suc_eq split: if_splits)

lemma scan_free_space_no_fit:
  "(scan_free_space fs sz (length fs) = None) = (\<forall>c \<in> set fs. size c < sz)"
proof -
  have "(\<forall>j < length fs. \<not> sz \<le> size (fs ! j)) = (\<forall>c \<in> set fs. \<not> sz \<le> size c)"
    by (simp add: all_set_conv_all_nth)
  then show ?thesis by (simp add: scan_free_space_None not_le)
qed

lemma new_slab_size_prev:
  assumes "m_slabs s \<noteq> []"
  shows "(if length (m_slabs s) = 1 then m_baseline s
    else ref_end (m_slabs s ! (length (m_slabs s) - 2)))
   = slab_ref (m_baseline s) (m_slabs s) (length (m_slabs s) - 1)"
proof (cases "length (m_slabs s) = 1")
  case True
  then show ?thesis by (simp add: slab_ref_def)
next
  case False
  then have "length (m_slabs s) - 1 \<noteq> 0" using assms by (cases "m_slabs s") auto
  moreover have "length (m_slabs s) - 1 - 1 = length (m_slabs s) - 2" by simp
  ultimately show ?thesis using False by (simp only: slab_ref_def if_False)
qed

lemma unat_new_slab_size:
  assumes pos: "0 < sz" and wf: "slabs_wf (m_baseline s) (m_slabs s)"
    and fits: "new_slab_fits s sz"
  shows "unat (new_slab_size s sz) = spec_new_slab_size s sz"
proof -
  have bound: "spec_new_slab_size s sz < 2 ^ 64"
    using fits by (simp add: new_slab_fits_def)
  then have rfit: "round_up_256 (unat sz) < 2 ^ 64"
    by (simp add: spec_new_slab_size_def)
  note ru = unat_round_up [OF pos rfit]
  show ?thesis
  proof (cases "m_slabs s = []")
    case True
    then show ?thesis
      by (simp add: new_slab_size_def spec_new_slab_size_def last_slab_size_def ru)
  next
    case ne: False
    define n where "n = length (m_slabs s)"
    define curr where "curr = ref_end (last (m_slabs s))"
    define prev where "prev = slab_ref (m_baseline s) (m_slabs s) (n - 1)"
    define d where "d = curr - prev"
    define new_size where "new_size = ((sz - 1) OR 255) + 1"
    have n: "n - 1 < length (m_slabs s)" using ne by (simp add: n_def)
    have lt: "prev < curr"
      using slabs_wfD [OF wf n] ne by (simp add: last_conv_nth prev_def curr_def n_def)
    have ud: "unat d = last_slab_size s"
      using lt ne by (simp add: last_slab_size_def unat_sub d_def prev_def curr_def n_def)
    have dbl: "2 * last_slab_size s < 2 ^ 64"
      using bound by (simp add: spec_new_slab_size_def)
    have um: "unat (2 * d) = 2 * last_slab_size s"
    proof -
      have "unat (2::64 word) * unat d < 2 ^ LENGTH(64)"
        using dbl ud by simp
      then have "unat (2 * d) = unat (2::64 word) * unat d"
        by (simp only: unat_mult_lem)
      then show ?thesis using ud by simp
    qed
    have eq: "new_slab_size s sz = (if new_size < 2 * d then 2 * d else new_size)"
      unfolding new_slab_size_def Let_def new_slab_size_prev [OF ne]
      using ne by (simp only: if_False d_def prev_def curr_def n_def new_size_def)
    have ru': "unat new_size = round_up_256 (unat sz)" by (simp only: new_size_def ru)
    show ?thesis
    proof (cases "new_size < 2 * d")
      case small: True
      then have "round_up_256 (unat sz) < 2 * last_slab_size s"
        by (simp only: word_less_nat_alt um ru')
      then have m: "max (round_up_256 (unat sz)) (2 * last_slab_size s) = 2 * last_slab_size s"
        by simp
      have "new_slab_size s sz = 2 * d"
        by (simp only: eq small if_True)
      then have "unat (new_slab_size s sz) = 2 * last_slab_size s"
        by (simp only: um)
      then show ?thesis
        by (simp only: spec_new_slab_size_def m)
    next
      case large: False
      then have "\<not> round_up_256 (unat sz) < 2 * last_slab_size s"
        by (simp only: word_less_nat_alt um ru' not_False_eq_True)
      then have m: "max (round_up_256 (unat sz)) (2 * last_slab_size s) = round_up_256 (unat sz)"
        by (rule max_absorb1 [OF leI])
      have "new_slab_size s sz = new_size"
        by (simp only: eq large if_False)
      then have "unat (new_slab_size s sz) = round_up_256 (unat sz)"
        by (simp only: ru')
      then show ?thesis
        by (simp only: spec_new_slab_size_def m)
    qed
  qed
qed

lemma round_up_256_ge: "n \<le> round_up_256 n"
proof -
  have "n + 255 = (n + 255) div 256 * 256 + (n + 255) mod 256" by simp
  moreover have "(n + 255) mod 256 \<le> 255" by simp
  ultimately show ?thesis unfolding round_up_256_def by linarith
qed

lemma get_total_size_eq: "get_total_size s = new_slab_ref s"
  by (simp add: get_total_size_def new_slab_ref_def)

lemma new_slab_facts:
  assumes pos: "0 < sz" and wf: "slabs_wf (m_baseline s) (m_slabs s)"
    and fits: "new_slab_fits s sz"
  shows "sz \<le> new_slab_size s sz"
    and "0 < new_slab_size s sz"
    and "unat (new_slab_ref s + new_slab_size s sz) = unat (new_slab_ref s) + unat (new_slab_size s sz)"
    and "new_slab_ref s < new_slab_ref s + new_slab_size s sz"
    and "unat (new_slab_ref s + sz) = unat (new_slab_ref s) + unat sz"
    and "unat (new_slab_size s sz - sz) = unat (new_slab_size s sz) - unat sz"
proof -
  note u = unat_new_slab_size [OF assms]
  have ge: "unat sz \<le> unat (new_slab_size s sz)"
    using round_up_256_ge [of "unat sz"] by (simp add: u spec_new_slab_size_def)
  then show le: "sz \<le> new_slab_size s sz" by (simp add: word_le_nat_alt)
  show p: "0 < new_slab_size s sz" using pos le by simp
  have b: "unat (new_slab_ref s) + unat (new_slab_size s sz) < 2 ^ LENGTH(64)"
    using fits by (simp add: new_slab_fits_def u get_total_size_eq)
  then show a: "unat (new_slab_ref s + new_slab_size s sz)
      = unat (new_slab_ref s) + unat (new_slab_size s sz)"
    by (simp only: unat_add_lem)
  have "0 < unat (new_slab_size s sz)" using p by (simp add: word_less_nat_alt)
  then show "new_slab_ref s < new_slab_ref s + new_slab_size s sz"
    by (simp add: word_less_nat_alt a)
  have "unat (new_slab_ref s) + unat sz < 2 ^ LENGTH(64)"
    using b ge by simp
  then show "unat (new_slab_ref s + sz) = unat (new_slab_ref s) + unat sz"
    by (simp only: unat_add_lem)
  show "unat (new_slab_size s sz - sz) = unat (new_slab_size s sz) - unat sz"
    using le by (simp add: unat_sub)
qed

lemma do_alloc_grow:
  assumes pos: "0 < sz" and al: "sz AND 7 = 0" and att: "is_attached s"
    and st: "m_free_space_state s \<noteq> free_space_Invalid"
    and nofit: "\<forall>c \<in> set (m_free_space s). size c < sz"
    and np: "0 < new_slab_size s sz"
    and env: "new_char_array env = Some mem" "slabs_push_back_ok env" "free_space_push_back_ok env"
  shows "do_alloc s sz env =
        (Inr \<lparr>m_addr = mem, m_ref = new_slab_ref s\<rparr>,
         s\<lparr>m_free_space_state := free_space_Dirty,
           m_slabs := m_slabs s @ [\<lparr>ref_end = new_slab_ref s + new_slab_size s sz, addr = mem\<rparr>],
           m_free_space := m_free_space s @
             (if 0 < new_slab_size s sz - sz
              then [\<lparr>ref = new_slab_ref s + sz, size = new_slab_size s sz - sz\<rparr>] else [])\<rparr>)"
proof -
  have scan: "scan_free_space (m_free_space s) sz (length (m_free_space s)) = None"
    using nofit by (simp add: scan_free_space_no_fit)
  have ns: "new_slab_size (s\<lparr>m_free_space_state := free_space_Dirty\<rparr>) sz = new_slab_size s sz"
    by (simp add: new_slab_size_def Let_def)
  have nr: "new_slab_ref (s\<lparr>m_free_space_state := free_space_Dirty\<rparr>) = new_slab_ref s"
    by (simp add: new_slab_ref_def)
  show ?thesis
    using pos al att st np env
    by (simp add: do_alloc_def Let_def scan ns nr)
qed


lemma pos_diff_iff:
  fixes a b :: "64 word"
  shows "b \<le> a \<Longrightarrow> (0 < a - b) = (b < a)"
  by (simp add: word_less_nat_alt word_le_nat_alt unat_sub)

text \<open>
  The growth policy for the requests that fit. Let \<open>alloc(size)\<close> be called with
  \<open>size > 0\<close>, \<open>size mod 8 = 0\<close>, on an attached allocator whose free-space state is not
  Invalid and whose slab list is well-formed, such that no chunk of the mutable free list
  is large enough, the heap provides the memory and the slab of the spec's growth policy
  fits below \<open>2 ^ 64\<close> in the space of refs. Then exactly one slab is appended; its size
  is the larger of \<open>size\<close> rounded up to the next multiple of 256 and twice the size of
  the last slab (0 if there is none); its range starts at the previous total size (the
  last \<open>ref_end\<close>, or \<open>B\<close>), which is the returned ref; its bytes are zero; and if the new
  size exceeds \<open>size\<close>, the chunk \<open>{start + size, new_size - size}\<close> is appended to the
  mutable free list, which is otherwise unchanged. The state becomes Dirty.
\<close>

lemma do_alloc_new_slab_in_ref_space:
  assumes pos: "0 < sz" and al: "sz mod 8 = 0" and att: "is_attached s"
    and st: "m_free_space_state s \<noteq> free_space_Invalid"
    and nofit: "\<forall>c \<in> set (m_free_space s). size c < sz"
    and wf: "slabs_wf (m_baseline s) (m_slabs s)"
    and fits: "new_slab_fits s sz"
    and env: "new_char_array env = Some mem" "slabs_push_back_ok env" "free_space_push_back_ok env"
  shows "\<exists>new_size.
      unat new_size = max (round_up_256 (unat sz)) (2 * last_slab_size s)
    \<and> unat (get_total_size s + new_size) = unat (get_total_size s) + unat new_size
    \<and> do_alloc s sz env =
        (Inr \<lparr>m_addr = mem, m_ref = get_total_size s\<rparr>,
         s\<lparr>m_free_space_state := free_space_Dirty,
           m_slabs := m_slabs s @ [\<lparr>ref_end = get_total_size s + new_size, addr = mem\<rparr>],
           m_free_space := m_free_space s @
             (if sz < new_size
              then [\<lparr>ref = get_total_size s + sz, size = new_size - sz\<rparr>] else [])\<rparr>)
    \<and> (\<forall>a. a - mem < new_size \<longrightarrow> do_alloc_memory s sz env memory a = 0)"
proof -
  note f = new_slab_facts [OF pos wf fits]
  have al': "sz AND 7 = 0" using al by (simp add: and_7_mod_8)
  have scan: "scan_free_space (m_free_space s) sz (length (m_free_space s)) = None"
    using nofit by (simp add: scan_free_space_no_fit)
  have mem: "do_alloc_memory s sz env memory a = 0" if "a - mem < new_slab_size s sz" for a
    using pos al' att st f(2) env that
    by (simp add: do_alloc_memory_def Let_def scan fill_memory_def)
  show ?thesis
  proof (intro exI conjI)
    show "unat (new_slab_size s sz) = max (round_up_256 (unat sz)) (2 * last_slab_size s)"
      using unat_new_slab_size [OF pos wf fits] by (simp add: spec_new_slab_size_def)
    show "unat (get_total_size s + new_slab_size s sz)
        = unat (get_total_size s) + unat (new_slab_size s sz)"
      using f(3) by (simp add: get_total_size_eq)
    show "do_alloc s sz env =
        (Inr \<lparr>m_addr = mem, m_ref = get_total_size s\<rparr>,
         s\<lparr>m_free_space_state := free_space_Dirty,
           m_slabs := m_slabs s @ [\<lparr>ref_end = get_total_size s + new_slab_size s sz, addr = mem\<rparr>],
           m_free_space := m_free_space s @
             (if sz < new_slab_size s sz
              then [\<lparr>ref = get_total_size s + sz, size = new_slab_size s sz - sz\<rparr>] else [])\<rparr>)"
      using do_alloc_grow [OF pos al' att st nofit f(2) env]
      by (simp only: get_total_size_eq pos_diff_iff [OF f(1)])
    show "\<forall>a. a - mem < new_slab_size s sz \<longrightarrow> do_alloc_memory s sz env memory a = 0"
      using mem by blast
  qed
qed

lemma do_alloc_one_slab_256:
  "do_alloc one_slab_alloc 256 (good_heap_at 0x30000) =
     (Inr \<lparr>m_addr = 0x30000, m_ref = 280\<rparr>, two_slab_alloc)
   \<and> (\<exists>new_size.
      unat new_size = max (round_up_256 (unat (256 :: size_t))) (2 * last_slab_size one_slab_alloc)
    \<and> unat (get_total_size one_slab_alloc + new_size) = unat (get_total_size one_slab_alloc) + unat new_size
    \<and> do_alloc one_slab_alloc 256 (good_heap_at 0x30000) =
        (Inr \<lparr>m_addr = 0x30000, m_ref = get_total_size one_slab_alloc\<rparr>,
         one_slab_alloc\<lparr>m_free_space_state := free_space_Dirty,
           m_slabs := m_slabs one_slab_alloc @
             [\<lparr>ref_end = get_total_size one_slab_alloc + new_size, addr = 0x30000\<rparr>],
           m_free_space := m_free_space one_slab_alloc @
             (if 256 < new_size
              then [\<lparr>ref = get_total_size one_slab_alloc + 256, size = new_size - 256\<rparr>] else [])\<rparr>)
    \<and> (\<forall>a. a - 0x30000 < new_size \<longrightarrow>
          do_alloc_memory one_slab_alloc 256 (good_heap_at 0x30000) (\<lambda>a. 0xAA) a = 0))"
proof -
  have s: "m_slabs one_slab_alloc = [\<lparr>ref_end = 280, addr = 0x20000\<rparr>]"
    "m_free_space one_slab_alloc = [\<lparr>ref = 32, size = 248\<rparr>]"
    "m_baseline one_slab_alloc = 24"
    "m_free_space_state one_slab_alloc = free_space_Dirty"
    "m_attach_mode one_slab_alloc = attach_OwnedBuffer"
    by (simp_all add: one_slab_alloc_def empty_alloc_def detached_alloc_def)
  have h1: "0 < (256 :: size_t)" by simp
  have h2: "(256 :: size_t) mod 8 = 0" by simp
  have h3: "is_attached one_slab_alloc" by (simp add: is_attached_def s)
  have h4: "m_free_space_state one_slab_alloc \<noteq> free_space_Invalid" by (simp add: s)
  have h5: "\<forall>c \<in> set (m_free_space one_slab_alloc). size c < 256" by (simp add: s)
  have h6: "slabs_wf (m_baseline one_slab_alloc) (m_slabs one_slab_alloc)"
    by (simp add: slabs_wf_def slab_ref_def s)
  have l: "last_slab_size one_slab_alloc = 256"
    by (simp add: last_slab_size_def slab_ref_def s)
  have h7: "new_slab_fits one_slab_alloc 256"
    by (simp add: new_slab_fits_def spec_new_slab_size_def round_up_256_def l get_total_size_def s)
  have h8: "new_char_array (good_heap_at 0x30000) = Some 0x30000"
    "slabs_push_back_ok (good_heap_at 0x30000)" "free_space_push_back_ok (good_heap_at 0x30000)"
    by (simp_all add: good_heap_at_def)
  have c: "do_alloc one_slab_alloc 256 (good_heap_at 0x30000) =
     (Inr \<lparr>m_addr = 0x30000, m_ref = 280\<rparr>, two_slab_alloc)"
    by (simp add: do_alloc_def Let_def is_attached_def new_slab_size_def new_slab_ref_def
        good_heap_at_def two_slab_alloc_def one_slab_alloc_def empty_alloc_def detached_alloc_def)
  show ?thesis
    by (rule conjI [OF c do_alloc_new_slab_in_ref_space [OF h1 h2 h3 h4 h5 h6 h7 h8, of "\<lambda>a. 0xAA"]])
qed

section \<open>Resetting the free-space tracking\<close>

lemma find_if_None: "(find_if P xs = None) = (\<forall>x \<in> set xs. \<not> P x)"
  by (induction xs) auto

lemma find_if_Some:
  "(find_if P xs = Some i) = (i < length xs \<and> P (xs ! i) \<and> (\<forall>j < i. \<not> P (xs ! j)))"
proof (induction xs arbitrary: i)
  case Nil
  then show ?case by simp
next
  case (Cons x xs)
  show ?case
  proof (cases "P x")
    case True
    then show ?thesis by (cases i) auto
  next
    case False
    show ?thesis
    proof (cases i)
      case 0
      then show ?thesis using False by simp
    next
      case (Suc k)
      have "(\<forall>j < Suc k. \<not> P ((x # xs) ! j)) = (\<forall>j < k. \<not> P (xs ! j))"
        using False by (auto simp: less_Suc_eq_0_disj)
      then show ?thesis using False Suc Cons.IH [of k] by auto
    qed
  qed
qed

lemma slab_ref_Cons_Suc: "slab_ref b (x # xs) (Suc i) = slab_ref (ref_end x) xs i"
  by (cases i) (simp_all add: slab_ref_def)

lemma whole_slab_chunks_Nil [simp]: "whole_slab_chunks b [] = []"
  by (simp add: whole_slab_chunks_def)

lemma whole_slab_chunks_Cons:
  "whole_slab_chunks b (x # xs) =
     \<lparr>ref = b, size = ref_end x - b\<rparr> # whole_slab_chunks (ref_end x) xs"
proof -
  have "[0..<length (x # xs)] = 0 # map Suc [0..<length xs]"
    by (simp add: upt_conv_Cons map_Suc_upt del: upt_Suc)
  then show ?thesis
    by (simp add: whole_slab_chunks_def slab_ref_Cons_Suc comp_def del: upt_Suc)
      (simp add: slab_ref_def)
qed

lemma length_whole_slab_chunks [simp]: "length (whole_slab_chunks b slabs) = length slabs"
  by (simp add: whole_slab_chunks_def)

lemma nth_whole_slab_chunks:
  "i < length slabs \<Longrightarrow>
   whole_slab_chunks b slabs ! i =
     \<lparr>ref = slab_ref b slabs i, size = ref_end (slabs ! i) - slab_ref b slabs i\<rparr>"
  by (simp add: whole_slab_chunks_def)

lemma rebuild_free_space_None:
  "rebuild_free_space slabs r fs None = Inr (fs @ whole_slab_chunks r slabs)"
  by (induction slabs arbitrary: r fs) (simp_all add: whole_slab_chunks_Cons)

lemma slab_ref_strict_mono:
  assumes wf: "slabs_wf b slabs" and k: "k < length slabs" and j: "j < k"
  shows "slab_ref b slabs j < slab_ref b slabs k"
proof -
  obtain k' where k': "k = Suc k'" using j by (cases k) auto
  have jl: "j < length slabs" using j k by simp
  have "slab_ref b slabs j < ref_end (slabs ! j)" by (rule slabs_wfD [OF wf jl])
  moreover have "ref_end (slabs ! j) \<le> ref_end (slabs ! k')"
    using slabs_wf_sorted [OF wf] j k k' by (simp add: ends_sorted_def)
  ultimately show ?thesis by (simp add: k' slab_ref_def)
qed

lemma find_if_whole_slab_chunks:
  assumes wf: "slabs_wf b slabs" and k: "k < length slabs"
  shows "find_if (ChunkRefEq (slab_ref b slabs k)) (whole_slab_chunks b slabs) = Some k"
proof -
  have "\<not> ChunkRefEq (slab_ref b slabs k) (whole_slab_chunks b slabs ! j)" if "j < k" for j
    using slab_ref_strict_mono [OF wf k that] that k
    by (simp add: ChunkRefEq_def nth_whole_slab_chunks)
  then show ?thesis
    using k by (simp add: find_if_Some ChunkRefEq_def nth_whole_slab_chunks)
qed

lemma is_all_free_loop_whole:
  assumes wf: "slabs_wf b slabs" and k: "k \<le> length slabs"
  shows "is_all_free_loop (whole_slab_chunks b slabs) (slab_ref b slabs k) (drop k slabs)"
  using k
proof (induction "length slabs - k" arbitrary: k)
  case 0
  then show ?case by simp
next
  case (Suc n)
  then have k: "k < length slabs" by simp
  have d: "drop k slabs = slabs ! k # drop (Suc k) slabs"
    using k by (simp add: Cons_nth_drop_Suc)
  have IH: "is_all_free_loop (whole_slab_chunks b slabs) (slab_ref b slabs (Suc k)) (drop (Suc k) slabs)"
    using Suc.hyps(1) [of "Suc k"] Suc.hyps(2) k by simp
  show ?case
    using IH k
    by (simp add: d find_if_whole_slab_chunks [OF wf k] nth_whole_slab_chunks slab_ref_Suc)
qed

lemma is_all_free_whole:
  assumes "slabs_wf (m_baseline s) (m_slabs s)"
    and "m_free_space s = whole_slab_chunks (m_baseline s) (m_slabs s)"
  shows "is_all_free s"
  using is_all_free_loop_whole [OF assms(1), of 0] assms(2)
  by (simp add: is_all_free_def slab_ref_def)

lemma reset_not_clean:
  assumes nc: "m_free_space_state s \<noteq> free_space_Clean"
    and wf: "slabs_wf (m_baseline s) (m_slabs s)"
  shows "reset_free_space_tracking s None =
     (Inr (), s\<lparr>m_free_read_only := [],
                m_free_space := whole_slab_chunks (m_baseline s) (m_slabs s),
                m_free_space_state := free_space_Clean\<rparr>)"
proof -
  let ?s1 = "s\<lparr>m_free_read_only := [],
                m_free_space := whole_slab_chunks (m_baseline s) (m_slabs s)\<rparr>"
  have "is_all_free ?s1"
    by (rule is_all_free_whole) (simp_all add: wf)
  then show ?thesis
    using nc by (simp add: reset_free_space_tracking_def Let_def rebuild_free_space_None)
qed

text \<open>
  C6. \<^verbatim>\<open>reset_free_space_tracking\<close> is a no-op when the free-space state is Clean.
  Otherwise (on a well-formed slab list, no \<^verbatim>\<open>push_back\<close> failing) it empties the
  read-only free list and rebuilds the mutable free list to hold exactly one chunk per
  slab, the \<open>i\<close>-th chunk having the ref at which slab \<open>i\<close> starts (the end of the slab
  before it, or \<open>B\<close>) and the span of that slab as its size, and sets the state to Clean.
  After the call on an allocator that satisfies the invariant, \<^verbatim>\<open>is_all_free()\<close> holds.
\<close>

theorem reset_free_space_tracking_rebuilds:
  "(m_free_space_state s = free_space_Clean \<longrightarrow> reset_free_space_tracking s fail_at = (Inr (), s))
   \<and> (m_free_space_state s \<noteq> free_space_Clean \<and> slabs_wf (m_baseline s) (m_slabs s) \<longrightarrow>
        (\<exists>fs. reset_free_space_tracking s None =
                 (Inr (), s\<lparr>m_free_read_only := [], m_free_space := fs,
                            m_free_space_state := free_space_Clean\<rparr>)
            \<and> length fs = length (m_slabs s)
            \<and> (\<forall>i < length (m_slabs s).
                  ref (fs ! i) = slab_ref (m_baseline s) (m_slabs s) i
                \<and> size (fs ! i) = ref_end (m_slabs s ! i) - slab_ref (m_baseline s) (m_slabs s) i
                \<and> unat (size (fs ! i)) =
                    unat (ref_end (m_slabs s ! i)) - unat (slab_ref (m_baseline s) (m_slabs s) i))))
   \<and> (alloc_inv s \<longrightarrow>
        fst (reset_free_space_tracking s None) = Inr ()
      \<and> m_free_space_state (snd (reset_free_space_tracking s None)) = free_space_Clean
      \<and> is_all_free (snd (reset_free_space_tracking s None)))"
proof -
  have p1: "m_free_space_state s = free_space_Clean \<longrightarrow>
      reset_free_space_tracking s fail_at = (Inr (), s)"
    by (simp add: reset_free_space_tracking_def)
  have p2: "m_free_space_state s \<noteq> free_space_Clean \<and> slabs_wf (m_baseline s) (m_slabs s) \<longrightarrow>
        (\<exists>fs. reset_free_space_tracking s None =
                 (Inr (), s\<lparr>m_free_read_only := [], m_free_space := fs,
                            m_free_space_state := free_space_Clean\<rparr>)
            \<and> length fs = length (m_slabs s)
            \<and> (\<forall>i < length (m_slabs s).
                  ref (fs ! i) = slab_ref (m_baseline s) (m_slabs s) i
                \<and> size (fs ! i) = ref_end (m_slabs s ! i) - slab_ref (m_baseline s) (m_slabs s) i
                \<and> unat (size (fs ! i)) =
                    unat (ref_end (m_slabs s ! i)) - unat (slab_ref (m_baseline s) (m_slabs s) i)))"
  proof
    assume a: "m_free_space_state s \<noteq> free_space_Clean \<and> slabs_wf (m_baseline s) (m_slabs s)"
    then have wf: "slabs_wf (m_baseline s) (m_slabs s)" by simp
    let ?fs = "whole_slab_chunks (m_baseline s) (m_slabs s)"
    have span: "unat (ref_end (m_slabs s ! i) - slab_ref (m_baseline s) (m_slabs s) i) =
        unat (ref_end (m_slabs s ! i)) - unat (slab_ref (m_baseline s) (m_slabs s) i)"
      if "i < length (m_slabs s)" for i
      using slabs_wfD [OF wf that] by (simp add: unat_sub)
    show "\<exists>fs. reset_free_space_tracking s None =
                 (Inr (), s\<lparr>m_free_read_only := [], m_free_space := fs,
                            m_free_space_state := free_space_Clean\<rparr>)
            \<and> length fs = length (m_slabs s)
            \<and> (\<forall>i < length (m_slabs s).
                  ref (fs ! i) = slab_ref (m_baseline s) (m_slabs s) i
                \<and> size (fs ! i) = ref_end (m_slabs s ! i) - slab_ref (m_baseline s) (m_slabs s) i
                \<and> unat (size (fs ! i)) =
                    unat (ref_end (m_slabs s ! i)) - unat (slab_ref (m_baseline s) (m_slabs s) i))"
      using reset_not_clean [of s] a span
      by (intro exI [of _ ?fs]) (simp add: nth_whole_slab_chunks)
  qed
  have p3: "alloc_inv s \<longrightarrow>
        fst (reset_free_space_tracking s None) = Inr ()
      \<and> m_free_space_state (snd (reset_free_space_tracking s None)) = free_space_Clean
      \<and> is_all_free (snd (reset_free_space_tracking s None))"
  proof
    assume inv: "alloc_inv s"
    then have wf: "slabs_wf (m_baseline s) (m_slabs s)" by (simp add: alloc_inv_def)
    show "fst (reset_free_space_tracking s None) = Inr ()
        \<and> m_free_space_state (snd (reset_free_space_tracking s None)) = free_space_Clean
        \<and> is_all_free (snd (reset_free_space_tracking s None))"
    proof (cases "m_free_space_state s = free_space_Clean")
      case True
      then have "m_free_space s = whole_slab_chunks (m_baseline s) (m_slabs s)"
        using inv by (simp add: alloc_inv_def)
      then have "is_all_free s" using wf by (intro is_all_free_whole)
      then show ?thesis using True by (simp add: reset_free_space_tracking_def)
    next
      case False
      have "is_all_free (s\<lparr>m_free_read_only := [],
                  m_free_space := whole_slab_chunks (m_baseline s) (m_slabs s),
                  m_free_space_state := free_space_Clean\<rparr>)"
        by (rule is_all_free_whole) (simp_all add: wf)
      then show ?thesis by (simp add: reset_not_clean [OF False wf])
    qed
  qed
  show ?thesis by (rule conjI [OF p1 conjI [OF p2 p3]])
qed

lemma two_slab_alloc_fields:
  "m_slabs two_slab_alloc = [\<lparr>ref_end = 280, addr = 0x20000\<rparr>, \<lparr>ref_end = 792, addr = 0x30000\<rparr>]"
  "m_free_space two_slab_alloc = [\<lparr>ref = 32, size = 248\<rparr>, \<lparr>ref = 536, size = 256\<rparr>]"
  "m_free_read_only two_slab_alloc = []"
  "m_baseline two_slab_alloc = 24"
  "m_free_space_state two_slab_alloc = free_space_Dirty"
  "m_attach_mode two_slab_alloc = attach_OwnedBuffer"
  by (simp_all add: two_slab_alloc_def one_slab_alloc_def empty_alloc_def detached_alloc_def)

lemma two_slab_alloc_wf: "slabs_wf (m_baseline two_slab_alloc) (m_slabs two_slab_alloc)"
  by (simp add: slabs_wf_iff slab_ref_def two_slab_alloc_fields less_Suc_eq)

theorem reset_free_space_tracking_rebuilds_witness:
  "m_free_space_state two_slab_alloc \<noteq> free_space_Clean
   \<and> slabs_wf (m_baseline two_slab_alloc) (m_slabs two_slab_alloc)
   \<and> reset_free_space_tracking two_slab_alloc None =
       (Inr (), two_slab_alloc\<lparr>m_free_read_only := [],
          m_free_space := [\<lparr>ref = 24, size = 256\<rparr>, \<lparr>ref = 280, size = 512\<rparr>],
          m_free_space_state := free_space_Clean\<rparr>)
   \<and> (\<exists>fs. reset_free_space_tracking two_slab_alloc None =
                 (Inr (), two_slab_alloc\<lparr>m_free_read_only := [], m_free_space := fs,
                            m_free_space_state := free_space_Clean\<rparr>)
            \<and> length fs = length (m_slabs two_slab_alloc)
            \<and> (\<forall>i < length (m_slabs two_slab_alloc).
                  ref (fs ! i) = slab_ref (m_baseline two_slab_alloc) (m_slabs two_slab_alloc) i
                \<and> size (fs ! i) = ref_end (m_slabs two_slab_alloc ! i)
                      - slab_ref (m_baseline two_slab_alloc) (m_slabs two_slab_alloc) i
                \<and> unat (size (fs ! i)) =
                    unat (ref_end (m_slabs two_slab_alloc ! i))
                      - unat (slab_ref (m_baseline two_slab_alloc) (m_slabs two_slab_alloc) i)))"
proof -
  have nc: "m_free_space_state two_slab_alloc \<noteq> free_space_Clean"
    by (simp add: two_slab_alloc_fields)
  have c: "reset_free_space_tracking two_slab_alloc None =
       (Inr (), two_slab_alloc\<lparr>m_free_read_only := [],
          m_free_space := [\<lparr>ref = 24, size = 256\<rparr>, \<lparr>ref = 280, size = 512\<rparr>],
          m_free_space_state := free_space_Clean\<rparr>)"
    by (simp add: reset_free_space_tracking_def Let_def two_slab_alloc_fields is_all_free_def
        ChunkRefEq_def)
  note t = reset_free_space_tracking_rebuilds [of two_slab_alloc None, THEN conjunct2, THEN conjunct1,
      rule_format, OF conjI [OF nc two_slab_alloc_wf]]
  show ?thesis
    by (intro conjI nc two_slab_alloc_wf c t)
qed

section \<open>Preservation of the invariant\<close>

lemma translate_cong:
  assumes "m_attach_mode s' = m_attach_mode s" "m_baseline s' = m_baseline s"
    "m_data s' = m_data s" "m_slabs s' = m_slabs s"
  shows "translate s' r = translate s r"
  using assms by (simp add: translate_def do_translate_def is_attached_def Let_def)

lemma block_in_slab_translate:
  assumes att: "is_attached s" and wf: "slabs_wf (m_baseline s) (m_slabs s)"
    and blk: "block_in_slab (m_baseline s) (m_slabs s) r sz"
  shows "\<exists>a. translate s r = Inr a"
proof -
  from blk obtain i where i: "i < length (m_slabs s)"
    and lo: "unat (slab_ref (m_baseline s) (m_slabs s) i) \<le> unat r"
    and hi: "unat r + unat sz \<le> unat (ref_end (m_slabs s ! i))"
    and pos: "0 < sz"
    by (auto simp: block_in_slab_def in_slab_def)
  have "0 < unat sz" using pos by (simp add: word_less_nat_alt)
  then have "r < ref_end (m_slabs s ! i)" using hi by (simp add: word_less_nat_alt)
  moreover have "slab_ref (m_baseline s) (m_slabs s) i \<le> r" using lo by (simp add: word_le_nat_alt)
  ultimately show ?thesis using translate_in_slab [OF att wf i] by blast
qed

lemma do_alloc_reuse:
  assumes pos: "0 < sz" and al: "sz AND 7 = 0" and att: "is_attached s"
    and st: "m_free_space_state s \<noteq> free_space_Invalid"
    and scan: "scan_free_space (m_free_space s) sz (length (m_free_space s)) = Some i"
    and tr: "translate s (ref (m_free_space s ! i)) = Inr a"
  shows "do_alloc s sz env =
     (Inr \<lparr>m_addr = a, m_ref = ref (m_free_space s ! i)\<rparr>,
      s\<lparr>m_free_space_state := free_space_Dirty,
        m_free_space :=
          (if size (m_free_space s ! i) - sz = 0 then erase_move_last (m_free_space s) i
           else (m_free_space s)[i := \<lparr>ref = ref (m_free_space s ! i) + sz,
                                      size = size (m_free_space s ! i) - sz\<rparr>])\<rparr>)"
proof -
  have t: "translate (s\<lparr>m_free_space_state := free_space_Dirty, m_free_space := fs\<rparr>) r = translate s r"
    for fs r
    by (rule translate_cong) simp_all
  show ?thesis
    using pos al att st tr
    by (simp add: do_alloc_def Let_def scan t)
qed

lemma block_in_slabI:
  "0 < sz \<Longrightarrow> i < length slabs \<Longrightarrow> unat (slab_ref b slabs i) \<le> unat r \<Longrightarrow>
   unat r + unat sz \<le> unat (ref_end (slabs ! i)) \<Longrightarrow> block_in_slab b slabs r sz"
  by (auto simp: block_in_slab_def in_slab_def)

lemma block_in_slabE:
  assumes "block_in_slab b slabs r sz"
  obtains i where "i < length slabs" "unat (slab_ref b slabs i) \<le> unat r"
    "unat r + unat sz \<le> unat (ref_end (slabs ! i))" "0 < sz"
  using assms by (auto simp: block_in_slab_def in_slab_def)

lemma block_in_slab_append:
  assumes "block_in_slab b slabs r sz"
  shows "block_in_slab b (slabs @ [x]) r sz"
proof -
  from assms obtain i where i: "i < length slabs" "unat (slab_ref b slabs i) \<le> unat r"
    "unat r + unat sz \<le> unat (ref_end (slabs ! i))" "0 < sz"
    by (rule block_in_slabE)
  show ?thesis
    using i by (intro block_in_slabI [of _ i]) (simp_all add: slab_ref_append nth_append)
qed

lemma block_in_slab_sub:
  assumes "block_in_slab b slabs r sz" and "0 < sz'"
    and "unat r \<le> unat r'" and "unat r' + unat sz' \<le> unat r + unat sz"
  shows "block_in_slab b slabs r' sz'"
proof -
  from assms(1) obtain i where i: "i < length slabs" "unat (slab_ref b slabs i) \<le> unat r"
    "unat r + unat sz \<le> unat (ref_end (slabs ! i))" "0 < sz"
    by (rule block_in_slabE)
  show ?thesis
    using i assms(2-4) by (intro block_in_slabI [of _ i]) simp_all
qed

lemma block_in_slab_bound:
  assumes "block_in_slab b slabs r sz"
  shows "unat r + unat sz < 2 ^ 64"
proof -
  from assms obtain i where "unat r + unat sz \<le> unat (ref_end (slabs ! i))"
    by (rule block_in_slabE)
  moreover have "unat (ref_end (slabs ! i)) < 2 ^ 64" using unsigned_less [of "ref_end (slabs ! i)"] by simp
  ultimately show ?thesis by simp
qed

lemma set_erase_move_last: "set (erase_move_last xs i) \<subseteq> set xs"
proof (cases "xs = []")
  case True
  then show ?thesis by (simp add: erase_move_last_def)
next
  case False
  have "set (butlast (xs[i := last xs])) \<subseteq> set (xs[i := last xs])"
    by (auto dest: in_set_butlastD)
  also have "\<dots> \<subseteq> insert (last xs) (set xs)" by (rule set_update_subset_insert)
  also have "\<dots> = set xs" using False by (simp add: insert_absorb)
  finally show ?thesis by (simp add: erase_move_last_def)
qed

lemma alloc_inv_reuse:
  assumes inv: "alloc_inv s"
    and scan: "scan_free_space (m_free_space s) sz (length (m_free_space s)) = Some i"
    and pos: "0 < sz"
  defines "c \<equiv> m_free_space s ! i"
  defines "fs' \<equiv> (if size c - sz = 0 then erase_move_last (m_free_space s) i
           else (m_free_space s)[i := \<lparr>ref = ref c + sz, size = size c - sz\<rparr>])"
  shows "alloc_inv (s\<lparr>m_free_space_state := free_space_Dirty, m_free_space := fs'\<rparr>)"
    and "block_in_slab (m_baseline s) (m_slabs s) (ref c) sz"
proof -
  note sc = scan_free_space_Some [OF scan]
  have i: "i < length (m_free_space s)" and le: "sz \<le> size c" using sc by (simp_all add: c_def)
  have cin: "block_in_slab (m_baseline s) (m_slabs s) (ref c) (size c)"
    using inv i by (simp add: alloc_inv_def chunk_in_slab_def c_def)
  have ule: "unat sz \<le> unat (size c)" using le by (simp add: word_le_nat_alt)
  have upos: "0 < unat sz" using pos by (simp add: word_less_nat_alt)
  show blk: "block_in_slab (m_baseline s) (m_slabs s) (ref c) sz"
    using ule by (intro block_in_slab_sub [OF cin pos]) simp_all
  have rest: "block_in_slab (m_baseline s) (m_slabs s) (ref c + sz) (size c - sz)"
    if ne: "size c - sz \<noteq> 0"
  proof -
    have us: "unat (size c - sz) = unat (size c) - unat sz" using le by (simp add: unat_sub)
    have "unat (ref c) + unat sz < 2 ^ LENGTH(64)"
      using block_in_slab_bound [OF cin] ule by simp
    then have ua: "unat (ref c + sz) = unat (ref c) + unat sz" by (simp only: unat_add_lem)
    have "0 < size c - sz" using ne by (simp only: word_neq_0_conv)
    then show ?thesis
      using cin ule by (intro block_in_slab_sub [OF cin]) (simp_all add: us ua)
  qed
  have "\<forall>x \<in> set fs'. block_in_slab (m_baseline s) (m_slabs s) (ref x) (size x)"
  proof (cases "size c - sz = 0")
    case True
    then show ?thesis
      using inv set_erase_move_last [of "m_free_space s" i]
      by (auto simp: fs'_def alloc_inv_def chunk_in_slab_def)
  next
    case False
    have "set fs' \<subseteq> insert \<lparr>ref = ref c + sz, size = size c - sz\<rparr> (set (m_free_space s))"
      using False by (simp add: fs'_def set_update_subset_insert)
    then show ?thesis
      using inv rest [OF False] by (auto simp: alloc_inv_def chunk_in_slab_def)
  qed
  then show "alloc_inv (s\<lparr>m_free_space_state := free_space_Dirty, m_free_space := fs'\<rparr>)"
    using inv by (simp add: alloc_inv_def chunk_in_slab_def chunk_in_file_def)
qed

lemma new_slab_size_Dirty [simp]:
  "new_slab_size (s\<lparr>m_free_space_state := st\<rparr>) sz = new_slab_size s sz"
  by (simp add: new_slab_size_def Let_def)

lemma new_slab_ref_Dirty [simp]:
  "new_slab_ref (s\<lparr>m_free_space_state := st\<rparr>) = new_slab_ref s"
  by (simp add: new_slab_ref_def)

lemma translate_Inl: "translate s r = Inl e \<Longrightarrow> e = AssertionFailed"
  by (auto simp: translate_def do_translate_def Let_def split: if_splits)

text \<open>The outcomes of \<^verbatim>\<open>do_alloc\<close>.\<close>

lemma do_alloc_cases:
  assumes "do_alloc s sz env = (res, s')"
  obtains
    (unchanged) e where "res = Inl e" "s' = s"
  | (reuse) i where "0 < sz"
      "scan_free_space (m_free_space s) sz (length (m_free_space s)) = Some i"
      "s' = s\<lparr>m_free_space_state := free_space_Dirty,
              m_free_space :=
                (if size (m_free_space s ! i) - sz = 0 then erase_move_last (m_free_space s) i
                 else (m_free_space s)[i := \<lparr>ref = ref (m_free_space s ! i) + sz,
                                            size = size (m_free_space s ! i) - sz\<rparr>])\<rparr>"
      "res = Inl AssertionFailed \<or> (\<exists>a. res = Inr \<lparr>m_addr = a, m_ref = ref (m_free_space s ! i)\<rparr>)"
  | (no_slab) e where "res = Inl e" "s' = s\<lparr>m_free_space_state := free_space_Dirty\<rparr>"
  | (slab_only) mem where "0 < sz" "0 < new_slab_size s sz"
      "s' = s\<lparr>m_free_space_state := free_space_Dirty,
              m_slabs := m_slabs s @ [\<lparr>ref_end = new_slab_ref s + new_slab_size s sz, addr = mem\<rparr>]\<rparr>"
      "res = Inl BadAlloc \<or> res = Inr \<lparr>m_addr = mem, m_ref = new_slab_ref s\<rparr>"
  | (slab_chunk) mem where "0 < sz" "0 < new_slab_size s sz" "0 < new_slab_size s sz - sz"
      "s' = s\<lparr>m_free_space_state := free_space_Dirty,
              m_slabs := m_slabs s @ [\<lparr>ref_end = new_slab_ref s + new_slab_size s sz, addr = mem\<rparr>],
              m_free_space := m_free_space s @
                [\<lparr>ref = new_slab_ref s + sz, size = new_slab_size s sz - sz\<rparr>]\<rparr>"
      "res = Inr \<lparr>m_addr = mem, m_ref = new_slab_ref s\<rparr>"
proof (cases "\<not> (0 < sz) \<or> sz AND 7 \<noteq> 0 \<or> \<not> is_attached s \<or> m_free_space_state s = free_space_Invalid")
  case True
  then have "res = Inl AssertionFailed \<or> res = Inl InvalidFreeSpace" "s' = s"
    using assms by (auto simp: do_alloc_def split: if_splits)
  then show ?thesis using unchanged by blast
next
  case ok: False
  show ?thesis
  proof (cases "scan_free_space (m_free_space s) sz (length (m_free_space s))")
    case (Some i)
    then show ?thesis
      using assms ok
      by (intro reuse [of i])
        (auto simp: do_alloc_def Let_def split: if_splits sum.splits dest: translate_Inl)
  next
    case None
    show ?thesis
    proof (cases "0 < new_slab_size s sz \<and> new_char_array env \<noteq> None \<and> slabs_push_back_ok env")
      case False
      then have "s' = s\<lparr>m_free_space_state := free_space_Dirty\<rparr>" "\<exists>e. res = Inl e"
        using assms ok None
        by (auto simp: do_alloc_def Let_def split: if_splits option.splits)
      then show ?thesis using no_slab by blast
    next
      case True
      then obtain mem where mem: "new_char_array env = Some mem" by auto
      show ?thesis
      proof (cases "0 < new_slab_size s sz - sz \<and> free_space_push_back_ok env")
        case True
        then show ?thesis
          using assms ok None \<open>0 < new_slab_size s sz \<and> new_char_array env \<noteq> None \<and> slabs_push_back_ok env\<close> mem
          by (intro slab_chunk [of mem]) (auto simp: do_alloc_def Let_def)
      next
        case False
        then show ?thesis
          using assms ok None \<open>0 < new_slab_size s sz \<and> new_char_array env \<noteq> None \<and> slabs_push_back_ok env\<close> mem
          by (intro slab_only [of mem]) (auto simp: do_alloc_def Let_def split: if_splits)
      qed
    qed
  qed
qed

lemma alloc_inv_grow:
  fixes mem :: addr
  assumes inv: "alloc_inv s" and pos: "0 < sz" and fits: "new_slab_fits s sz"
  defines "x \<equiv> \<lparr>ref_end = new_slab_ref s + new_slab_size s sz, addr = mem\<rparr>"
  defines "c \<equiv> \<lparr>ref = new_slab_ref s + sz, size = new_slab_size s sz - sz\<rparr>"
  shows "slabs_wf (m_baseline s) (m_slabs s @ [x])"
    and "block_in_slab (m_baseline s) (m_slabs s @ [x]) (new_slab_ref s) sz"
    and "0 < new_slab_size s sz - sz \<Longrightarrow>
         block_in_slab (m_baseline s) (m_slabs s @ [x]) (ref c) (size c)"
proof -
  have wf: "slabs_wf (m_baseline s) (m_slabs s)" using inv by (simp add: alloc_inv_def)
  note f = new_slab_facts [OF pos wf fits]
  let ?n = "length (m_slabs s)"
  show "slabs_wf (m_baseline s) (m_slabs s @ [x])"
    using wf f(4) by (simp add: slabs_wf_append x_def new_slab_ref_eq)
  have start: "slab_ref (m_baseline s) (m_slabs s @ [x]) ?n = new_slab_ref s"
    by (simp add: slab_ref_append new_slab_ref_eq)
  have "end": "unat (ref_end x) = unat (new_slab_ref s) + unat (new_slab_size s sz)"
    by (simp add: x_def f(3))
  have le: "unat sz \<le> unat (new_slab_size s sz)" using f(1) by (simp add: word_le_nat_alt)
  show "block_in_slab (m_baseline s) (m_slabs s @ [x]) (new_slab_ref s) sz"
    using pos le by (intro block_in_slabI [of _ ?n]) (simp_all add: start "end")
  show "block_in_slab (m_baseline s) (m_slabs s @ [x]) (ref c) (size c)"
    if "0 < new_slab_size s sz - sz"
    using that le by (intro block_in_slabI [of _ ?n]) (simp_all add: start "end" c_def f(5) f(6))
qed

lemma do_alloc_inv:
  assumes inv: "alloc_inv s" and al: "do_alloc s sz env = (res, s')"
    and fits: "new_slab_fits s sz"
  shows "alloc_inv s'"
    and "m_baseline s' = m_baseline s"
    and "m_attach_mode s' = m_attach_mode s"
    and "\<And>r z. block_in_slab (m_baseline s) (m_slabs s) r z \<Longrightarrow>
           block_in_slab (m_baseline s') (m_slabs s') r z"
    and "\<And>mr. res = Inr mr \<Longrightarrow> block_in_slab (m_baseline s') (m_slabs s') (m_ref mr) sz"
    and "s' = s \<or> m_free_space_state s' = free_space_Dirty"
    and "m_slabs s = [] \<and> m_free_space s = [] \<and> m_free_read_only s = [] \<Longrightarrow> is_attached s \<or> s' = s"
proof -
  have all: "alloc_inv s' \<and> m_baseline s' = m_baseline s \<and> m_attach_mode s' = m_attach_mode s
    \<and> (\<forall>r z. block_in_slab (m_baseline s) (m_slabs s) r z \<longrightarrow>
           block_in_slab (m_baseline s') (m_slabs s') r z)
    \<and> (\<forall>mr. res = Inr mr \<longrightarrow> block_in_slab (m_baseline s') (m_slabs s') (m_ref mr) sz)
    \<and> (s' = s \<or> m_free_space_state s' = free_space_Dirty)"
    using al
  proof (cases rule: do_alloc_cases)
    case (unchanged e)
    then show ?thesis using inv by simp
  next
    case (reuse i)
    note r = alloc_inv_reuse [OF inv reuse(2) reuse(1)]
    show ?thesis
      using r reuse(3) reuse(4) by auto
  next
    case (no_slab e)
    then show ?thesis using inv by (simp add: alloc_inv_def chunk_in_slab_def chunk_in_file_def)
  next
    case (slab_only mem)
    note g = alloc_inv_grow [OF inv slab_only(1) fits, of mem]
    have "alloc_inv s'"
      using inv g(1)
      by (auto simp: alloc_inv_def chunk_in_slab_def chunk_in_file_def slab_only(3)
          intro: block_in_slab_append)
    then show ?thesis
      using g(2) slab_only(4) by (auto simp: slab_only(3) intro: block_in_slab_append)
  next
    case (slab_chunk mem)
    note g = alloc_inv_grow [OF inv slab_chunk(1) fits, of mem]
    have "alloc_inv s'"
      using inv g(1) g(3) [OF slab_chunk(3)]
      by (auto simp: alloc_inv_def chunk_in_slab_def chunk_in_file_def slab_chunk(4)
          intro: block_in_slab_append)
    then show ?thesis
      using g(2) slab_chunk(5) by (auto simp: slab_chunk(4) intro: block_in_slab_append)
  qed
  show "alloc_inv s'" "m_baseline s' = m_baseline s" "m_attach_mode s' = m_attach_mode s"
    "s' = s \<or> m_free_space_state s' = free_space_Dirty"
    using all by simp_all
  show "\<And>r z. block_in_slab (m_baseline s) (m_slabs s) r z \<Longrightarrow>
           block_in_slab (m_baseline s') (m_slabs s') r z"
    using all by blast
  show "\<And>mr. res = Inr mr \<Longrightarrow> block_in_slab (m_baseline s') (m_slabs s') (m_ref mr) sz"
    using all by blast
  show "is_attached s \<or> s' = s" if "m_slabs s = [] \<and> m_free_space s = [] \<and> m_free_read_only s = []"
    using al by (auto simp: do_alloc_def split: if_splits)
qed

lemma free_into_merge_succ:
  "free_into slabs fs r sz push_ok =
     (let (fs1, merged_with) = merge_succ slabs fs r sz;
          pred = (if find_if (SlabRefEndEq r) slabs = None
                  then find_if (ChunkRefEndEq r) fs1 else None)
      in
      case pred of
        Some i \<Rightarrow>
          (case merged_with of
             Some m \<Rightarrow>
               (erase_move_last (fs1[i := (fs1 ! i)\<lparr>size := size (fs1 ! i) + size (fs1 ! m)\<rparr>]) m, False)
           | None \<Rightarrow> (fs1[i := (fs1 ! i)\<lparr>size := size (fs1 ! i) + sz\<rparr>], False))
      | None \<Rightarrow>
          (case merged_with of
             Some m \<Rightarrow> (fs1, False)
           | None \<Rightarrow> if push_ok then (fs1 @ [\<lparr>ref = r, size = sz\<rparr>], False) else (fs1, True)))"
  by (simp add: free_into_def merge_succ_def Let_def split: option.splits)

lemma merge_succ_cases:
  obtains (none) "merge_succ slabs fs r sz = (fs, None)"
      "find_if (ChunkRefEq (r + sz)) fs = None \<or> find_if (SlabRefEndEq (r + sz)) slabs \<noteq> None"
  | (merged) j where "merge_succ slabs fs r sz =
        (fs[j := \<lparr>ref = r, size = size (fs ! j) + sz\<rparr>], Some j)"
      "j < length fs" "ref (fs ! j) = r + sz" "find_if (SlabRefEndEq (r + sz)) slabs = None"
      "\<forall>k < j. ref (fs ! k) \<noteq> r + sz"
proof (cases "find_if (ChunkRefEq (r + sz)) fs")
  case None
  then show ?thesis using none by (simp add: merge_succ_def)
next
  case (Some j)
  note j = Some [unfolded find_if_Some ChunkRefEq_def]
  show ?thesis
  proof (cases "find_if (SlabRefEndEq (r + sz)) slabs = None")
    case True
    then show ?thesis using merged [of j] Some j by (simp add: merge_succ_def)
  next
    case False
    then show ?thesis using none Some by (simp add: merge_succ_def)
  qed
qed

lemma free_into_preserves:
  assumes all: "\<forall>c \<in> set fs. P c"
    and new: "P \<lparr>ref = r, size = sz\<rparr>"
    and succ: "\<And>c. c \<in> set fs \<Longrightarrow> ref c = r + sz \<Longrightarrow>
        find_if (SlabRefEndEq (r + sz)) slabs = None \<Longrightarrow> P \<lparr>ref = r, size = size c + sz\<rparr>"
    and pred: "\<And>p x. P p \<Longrightarrow> P \<lparr>ref = r, size = x\<rparr> \<Longrightarrow> ref p + size p = r \<Longrightarrow>
        find_if (SlabRefEndEq r) slabs = None \<Longrightarrow> P (p\<lparr>size := size p + x\<rparr>)"
  shows "\<forall>c \<in> set (fst (free_into slabs fs r sz push_ok)). P c"
proof -
  obtain fs1 mw where ms: "merge_succ slabs fs r sz = (fs1, mw)" by (cases "merge_succ slabs fs r sz")
  have fs1: "\<forall>c \<in> set fs1. P c"
    and mw: "\<And>m. mw = Some m \<Longrightarrow> m < length fs1 \<and> (\<exists>x. fs1 ! m = \<lparr>ref = r, size = x\<rparr>)"
  proof -
    show "\<forall>c \<in> set fs1. P c"
    proof (cases rule: merge_succ_cases [of slabs fs r sz])
      case none
      then show ?thesis using all ms by simp
    next
      case (merged j)
      have "P \<lparr>ref = r, size = size (fs ! j) + sz\<rparr>"
        using succ [of "fs ! j"] merged(2,3,4) by simp
      moreover have "set fs1 \<subseteq> insert \<lparr>ref = r, size = size (fs ! j) + sz\<rparr> (set fs)"
        using merged(1) ms by (simp add: set_update_subset_insert)
      ultimately show ?thesis using all by auto
    qed
    show "m < length fs1 \<and> (\<exists>x. fs1 ! m = \<lparr>ref = r, size = x\<rparr>)" if "mw = Some m" for m
    proof (cases rule: merge_succ_cases [of slabs fs r sz])
      case none
      then show ?thesis using that ms by simp
    next
      case (merged j)
      then show ?thesis using that ms by auto
    qed
  qed
  define pred_ix where "pred_ix =
     (if find_if (SlabRefEndEq r) slabs = None then find_if (ChunkRefEndEq r) fs1 else None)"
  have fi: "free_into slabs fs r sz push_ok =
      (case pred_ix of
        Some i \<Rightarrow>
          (case mw of
             Some m \<Rightarrow>
               (erase_move_last (fs1[i := (fs1 ! i)\<lparr>size := size (fs1 ! i) + size (fs1 ! m)\<rparr>]) m, False)
           | None \<Rightarrow> (fs1[i := (fs1 ! i)\<lparr>size := size (fs1 ! i) + sz\<rparr>], False))
      | None \<Rightarrow>
          (case mw of
             Some m \<Rightarrow> (fs1, False)
           | None \<Rightarrow> if push_ok then (fs1 @ [\<lparr>ref = r, size = sz\<rparr>], False) else (fs1, True)))"
    by (simp add: free_into_merge_succ ms pred_ix_def)
  show ?thesis
  proof (cases pred_ix)
    case None
    then show ?thesis using fs1 new by (auto simp: fi split: option.splits)
  next
    case (Some i)
    then have nb: "find_if (SlabRefEndEq r) slabs = None"
      and fi_i: "find_if (ChunkRefEndEq r) fs1 = Some i"
      by (auto simp: pred_ix_def split: if_splits)
    have i: "i < length fs1" and e: "ref (fs1 ! i) + size (fs1 ! i) = r"
      using fi_i by (simp_all add: find_if_Some ChunkRefEndEq_def)
    have Pi: "P (fs1 ! i)" using fs1 i by simp
    have grow: "P ((fs1 ! i)\<lparr>size := size (fs1 ! i) + x\<rparr>)" if "P \<lparr>ref = r, size = x\<rparr>" for x
      using pred [OF Pi that e nb] .
    show ?thesis
    proof (cases mw)
      case None
      have "set (fs1[i := (fs1 ! i)\<lparr>size := size (fs1 ! i) + sz\<rparr>])
          \<subseteq> insert ((fs1 ! i)\<lparr>size := size (fs1 ! i) + sz\<rparr>) (set fs1)"
        by (rule set_update_subset_insert)
      then show ?thesis using fs1 grow [OF new] by (auto simp: fi Some None)
    next
      case (Some m)
      obtain x where m: "m < length fs1" "fs1 ! m = \<lparr>ref = r, size = x\<rparr>"
        using mw [OF Some] by blast
      have "P \<lparr>ref = r, size = x\<rparr>" using fs1 m by (metis nth_mem)
      then have g: "P ((fs1 ! i)\<lparr>size := size (fs1 ! i) + size (fs1 ! m)\<rparr>)"
        using grow [of x] m(2) by simp
      let ?fs2 = "fs1[i := (fs1 ! i)\<lparr>size := size (fs1 ! i) + size (fs1 ! m)\<rparr>]"
      have "set (erase_move_last ?fs2 m) \<subseteq> set ?fs2" by (rule set_erase_move_last)
      also have "\<dots> \<subseteq> insert ((fs1 ! i)\<lparr>size := size (fs1 ! i) + size (fs1 ! m)\<rparr>) (set fs1)"
        by (rule set_update_subset_insert)
      finally show ?thesis using fs1 g by (auto simp: fi \<open>pred_ix = Some i\<close> Some)
    qed
  qed
qed

lemma no_slab_boundary:
  "(find_if (SlabRefEndEq x) slabs = None) = (\<forall>i < length slabs. ref_end (slabs ! i) \<noteq> x)"
  by (simp add: find_if_None SlabRefEndEq_def all_set_conv_all_nth)

lemma merge_in_slab:
  assumes wf: "slabs_wf b slabs"
    and A: "block_in_slab b slabs r1 s1" and B: "block_in_slab b slabs r2 s2"
    and adj: "r2 = r1 + s1"
    and nb: "find_if (SlabRefEndEq r2) slabs = None"
  shows "block_in_slab b slabs r1 (s1 + s2)" and "unat (s1 + s2) = unat s1 + unat s2"
proof -
  from A obtain i where i: "i < length slabs" "unat (slab_ref b slabs i) \<le> unat r1"
    "unat r1 + unat s1 \<le> unat (ref_end (slabs ! i))" "0 < s1"
    by (rule block_in_slabE)
  from B obtain j where j: "j < length slabs" "unat (slab_ref b slabs j) \<le> unat r2"
    "unat r2 + unat s2 \<le> unat (ref_end (slabs ! j))" "0 < s2"
    by (rule block_in_slabE)
  have "unat r1 + unat s1 < 2 ^ LENGTH(64)"
    using block_in_slab_bound [OF A] by simp
  then have u2: "unat r2 = unat r1 + unat s1" by (simp only: adj unat_add_lem)
  have p1: "0 < unat s1" and p2: "0 < unat s2" using i(4) j(4) by (simp_all add: word_less_nat_alt)
  have "ref_end (slabs ! i) \<noteq> r2" using nb i(1) by (simp add: no_slab_boundary)
  then have "unat (ref_end (slabs ! i)) \<noteq> unat r2" by (simp add: word_unat_eq_iff)
  then have lt: "unat r2 < unat (ref_end (slabs ! i))" using i(3) u2 by simp
  have ii: "slab_ref b slabs i \<le> r2" "r2 < ref_end (slabs ! i)"
    using i(2) u2 lt by (simp_all add: word_le_nat_alt word_less_nat_alt)
  have jj: "slab_ref b slabs j \<le> r2" "r2 < ref_end (slabs ! j)"
    using j(2,3) p2 by (simp_all add: word_le_nat_alt word_less_nat_alt)
  have ij: "i = j" by (rule slab_unique [OF wf i(1) ii j(1) jj])
  have tot: "unat r1 + unat s1 + unat s2 \<le> unat (ref_end (slabs ! i))"
    using j(3) u2 ij by simp
  have "unat (ref_end (slabs ! i)) < 2 ^ 64" using unsigned_less [of "ref_end (slabs ! i)"] by simp
  then have "unat s1 + unat s2 < 2 ^ LENGTH(64)" using tot by simp
  then show us: "unat (s1 + s2) = unat s1 + unat s2" by (simp only: unat_add_lem)
  have "0 < s1 + s2" using p1 us by (simp add: word_less_nat_alt)
  then show "block_in_slab b slabs r1 (s1 + s2)"
    using i(1,2) tot us by (intro block_in_slabI [of _ i]) simp_all
qed

lemma merge_in_file:
  assumes A: "block_in_file b r1 s1" and B: "block_in_file b r2 s2" and adj: "r2 = r1 + s1"
  shows "block_in_file b r1 (s1 + s2)"
proof -
  have b: "unat b < 2 ^ 64" using unsigned_less [of b] by simp
  have "unat r1 + unat s1 < 2 ^ LENGTH(64)" using A b by (simp add: block_in_file_def)
  then have u2: "unat r2 = unat r1 + unat s1" by (simp only: adj unat_add_lem)
  have tot: "unat r1 + unat s1 + unat s2 \<le> unat b" using B u2 by (simp add: block_in_file_def)
  then have "unat s1 + unat s2 < 2 ^ LENGTH(64)" using b by simp
  then have us: "unat (s1 + s2) = unat s1 + unat s2" by (simp only: unat_add_lem)
  have "0 < unat s1" using A by (simp add: block_in_file_def word_less_nat_alt)
  then have "0 < s1 + s2" using us by (simp add: word_less_nat_alt)
  then show ?thesis using tot us by (simp add: block_in_file_def)
qed

lemma free_into_in_slab:
  assumes wf: "slabs_wf b slabs"
    and all: "\<forall>c \<in> set fs. block_in_slab b slabs (ref c) (size c)"
    and blk: "block_in_slab b slabs r sz"
  shows "\<forall>c \<in> set (fst (free_into slabs fs r sz push_ok)). block_in_slab b slabs (ref c) (size c)"
proof (rule free_into_preserves [where P = "\<lambda>c. block_in_slab b slabs (ref c) (size c)"])
  show "\<forall>c \<in> set fs. block_in_slab b slabs (ref c) (size c)" by (rule all)
  show "block_in_slab b slabs (ref \<lparr>ref = r, size = sz\<rparr>) (size \<lparr>ref = r, size = sz\<rparr>)"
    using blk by simp
  show "block_in_slab b slabs (ref \<lparr>ref = r, size = size c + sz\<rparr>)
          (size \<lparr>ref = r, size = size c + sz\<rparr>)"
    if "c \<in> set fs" "ref c = r + sz" "find_if (SlabRefEndEq (r + sz)) slabs = None" for c
  proof -
    have "block_in_slab b slabs (ref c) (size c)" using all that(1) by blast
    then have "block_in_slab b slabs r (sz + size c)"
      using that by (intro merge_in_slab(1) [OF wf blk]) simp_all
    then show ?thesis by (simp only: add.commute [of sz] Chunk.simps)
  qed
  show "block_in_slab b slabs (ref (p\<lparr>size := size p + x\<rparr>)) (size (p\<lparr>size := size p + x\<rparr>))"
    if "block_in_slab b slabs (ref p) (size p)"
      "block_in_slab b slabs (ref \<lparr>ref = r, size = x\<rparr>) (size \<lparr>ref = r, size = x\<rparr>)"
      "ref p + size p = r" "find_if (SlabRefEndEq r) slabs = None" for p x
  proof -
    have "block_in_slab b slabs r x" using that(2) by simp
    then have "block_in_slab b slabs (ref p) (size p + x)"
      using that by (intro merge_in_slab(1) [OF wf that(1)]) simp_all
    then show ?thesis by simp
  qed
qed

lemma free_into_in_file:
  assumes all: "\<forall>c \<in> set fs. block_in_file b (ref c) (size c)"
    and blk: "block_in_file b r sz"
  shows "\<forall>c \<in> set (fst (free_into slabs fs r sz push_ok)). block_in_file b (ref c) (size c)"
proof (rule free_into_preserves [where P = "\<lambda>c. block_in_file b (ref c) (size c)"])
  show "\<forall>c \<in> set fs. block_in_file b (ref c) (size c)" by (rule all)
  show "block_in_file b (ref \<lparr>ref = r, size = sz\<rparr>) (size \<lparr>ref = r, size = sz\<rparr>)"
    using blk by simp
  show "block_in_file b (ref \<lparr>ref = r, size = size c + sz\<rparr>)
          (size \<lparr>ref = r, size = size c + sz\<rparr>)"
    if "c \<in> set fs" "ref c = r + sz" "find_if (SlabRefEndEq (r + sz)) slabs = None" for c
  proof -
    have "block_in_file b (ref c) (size c)" using all that(1) by blast
    then have "block_in_file b r (sz + size c)"
      using that by (intro merge_in_file [OF blk]) simp_all
    then show ?thesis by (simp only: add.commute [of sz] Chunk.simps)
  qed
  show "block_in_file b (ref (p\<lparr>size := size p + x\<rparr>)) (size (p\<lparr>size := size p + x\<rparr>))"
    if "block_in_file b (ref p) (size p)"
      "block_in_file b (ref \<lparr>ref = r, size = x\<rparr>) (size \<lparr>ref = r, size = x\<rparr>)"
      "ref p + size p = r" "find_if (SlabRefEndEq r) slabs = None" for p x
  proof -
    have "block_in_file b r x" using that(2) by simp
    then have "block_in_file b (ref p) (size p + x)"
      using that by (intro merge_in_file [OF that(1)]) simp_all
    then show ?thesis by simp
  qed
qed

lemma do_free_Invalid:
  "m_free_space_state s = free_space_Invalid \<Longrightarrow>
   do_free s r a hdr push_ok = (if translate s r = Inr a then Inr s else Inl AssertionFailed)"
  by (simp add: do_free_def Let_def)

lemma do_free_read_only:
  assumes "translate s r = Inr a" "m_free_space_state s \<noteq> free_space_Invalid" "is_read_only s r"
    and "free_into (m_slabs s) (m_free_read_only s) r (byte_size_from_header hdr) push_ok = (fs, caught)"
  shows "do_free s r a hdr push_ok =
     Inr (s\<lparr>m_free_space_state := (if caught then free_space_Invalid else free_space_Dirty),
            m_free_read_only := fs\<rparr>)"
  using assms by (cases caught) (simp_all add: do_free_def Let_def)

lemma do_free_mutable:
  assumes "translate s r = Inr a" "m_free_space_state s = free_space_Dirty" "\<not> is_read_only s r"
    and "free_into (m_slabs s) (m_free_space s) r (capacity_from_header hdr) push_ok = (fs, caught)"
  shows "do_free s r a hdr push_ok =
     Inr (s\<lparr>m_free_space_state := (if caught then free_space_Invalid else free_space_Dirty),
            m_free_space := fs\<rparr>)"
  using assms by (cases caught) (simp_all add: do_free_def Let_def)

lemma do_free_Inr:
  assumes "do_free s r a hdr push_ok = Inr s'"
  shows "translate s r = Inr a"
    and "m_free_space_state s = free_space_Invalid \<or> is_read_only s r
         \<or> m_free_space_state s = free_space_Dirty"
proof -
  show "translate s r = Inr a"
    using assms by (cases "translate s r = Inr a") (simp_all add: do_free_def)
  then show "m_free_space_state s = free_space_Invalid \<or> is_read_only s r
         \<or> m_free_space_state s = free_space_Dirty"
    using assms
    by (cases "m_free_space_state s = free_space_Invalid";
        cases "is_read_only s r \<or> m_free_space_state s = free_space_Dirty")
      (simp_all add: do_free_def Let_def)
qed

lemma translate_attached: "translate s r = Inr a \<Longrightarrow> is_attached s"
  by (cases "is_attached s") (simp_all add: translate_def do_translate_def)

lemma do_free_inv:
  assumes inv: "alloc_inv s" and fr: "do_free s r a hdr push_ok = Inr s'"
    and valid: "if is_read_only s r then block_in_file (m_baseline s) r (byte_size_from_header hdr)
                else block_in_slab (m_baseline s) (m_slabs s) r (capacity_from_header hdr)"
  shows "alloc_inv s'" and "m_baseline s' = m_baseline s" and "m_slabs s' = m_slabs s"
    and "m_attach_mode s' = m_attach_mode s" and "is_attached s"
    and "s' = s \<or> m_free_space_state s' \<noteq> free_space_Clean"
proof -
  have wf: "slabs_wf (m_baseline s) (m_slabs s)" using inv by (simp add: alloc_inv_def)
  note tr = do_free_Inr(1) [OF fr]
  show "is_attached s" using tr by (rule translate_attached)
  have all: "alloc_inv s' \<and> m_baseline s' = m_baseline s \<and> m_slabs s' = m_slabs s
      \<and> m_attach_mode s' = m_attach_mode s \<and> (s' = s \<or> m_free_space_state s' \<noteq> free_space_Clean)"
  proof (cases "m_free_space_state s = free_space_Invalid")
    case True
    then show ?thesis using fr inv tr by (simp add: do_free_Invalid)
  next
    case ninv: False
    show ?thesis
    proof (cases "is_read_only s r")
      case True
      let ?sz = "byte_size_from_header hdr"
      obtain fs caught where fi: "free_into (m_slabs s) (m_free_read_only s) r ?sz push_ok = (fs, caught)"
        by (cases "free_into (m_slabs s) (m_free_read_only s) r ?sz push_ok")
      have old: "\<forall>c \<in> set (m_free_read_only s). block_in_file (m_baseline s) (ref c) (size c)"
        using inv by (simp add: alloc_inv_def chunk_in_file_def)
      have blk: "block_in_file (m_baseline s) r ?sz" using valid True by simp
      have new: "\<forall>c \<in> set fs. block_in_file (m_baseline s) (ref c) (size c)"
        using free_into_in_file [OF old blk, of "m_slabs s" push_ok] by (simp add: fi)
      have s': "s' = s\<lparr>m_free_space_state := (if caught then free_space_Invalid else free_space_Dirty),
                            m_free_read_only := fs\<rparr>"
        using fr do_free_read_only [OF tr ninv True fi] by simp
      have "alloc_inv s'"
        using inv new unfolding s' alloc_inv_def chunk_in_file_def chunk_in_slab_def by simp
      then show ?thesis by (simp add: s')
    next
      case False
      let ?sz = "capacity_from_header hdr"
      have dirty: "m_free_space_state s = free_space_Dirty"
        using do_free_Inr(2) [OF fr] ninv False by simp
      obtain fs caught where fi: "free_into (m_slabs s) (m_free_space s) r ?sz push_ok = (fs, caught)"
        by (cases "free_into (m_slabs s) (m_free_space s) r ?sz push_ok")
      have old: "\<forall>c \<in> set (m_free_space s). block_in_slab (m_baseline s) (m_slabs s) (ref c) (size c)"
        using inv by (simp add: alloc_inv_def chunk_in_slab_def)
      have blk: "block_in_slab (m_baseline s) (m_slabs s) r ?sz" using valid False by simp
      have new: "\<forall>c \<in> set fs. block_in_slab (m_baseline s) (m_slabs s) (ref c) (size c)"
        using free_into_in_slab [OF wf old blk, of push_ok] by (simp add: fi)
      have s': "s' = s\<lparr>m_free_space_state := (if caught then free_space_Invalid else free_space_Dirty),
                            m_free_space := fs\<rparr>"
        using fr do_free_mutable [OF tr dirty False fi] by simp
      have "alloc_inv s'"
        using inv new unfolding s' alloc_inv_def chunk_in_file_def chunk_in_slab_def by simp
      then show ?thesis by (simp add: s')
    qed
  qed
  then show "alloc_inv s'" "m_baseline s' = m_baseline s" "m_slabs s' = m_slabs s"
    "m_attach_mode s' = m_attach_mode s" "s' = s \<or> m_free_space_state s' \<noteq> free_space_Clean"
    by simp_all
qed

lemma whole_slab_chunks_in_slab:
  assumes wf: "slabs_wf b slabs" and c: "c \<in> set (whole_slab_chunks b slabs)"
  shows "block_in_slab b slabs (ref c) (size c)"
proof -
  from c obtain i where i: "i < length slabs" and ci: "c = whole_slab_chunks b slabs ! i"
    by (auto simp: in_set_conv_nth)
  have lt: "slab_ref b slabs i < ref_end (slabs ! i)" by (rule slabs_wfD [OF wf i])
  have r: "ref c = slab_ref b slabs i" and s: "size c = ref_end (slabs ! i) - slab_ref b slabs i"
    using i ci by (simp_all add: nth_whole_slab_chunks)
  have us: "unat (size c) = unat (ref_end (slabs ! i)) - unat (slab_ref b slabs i)"
    using lt by (simp add: s unat_sub)
  have ul: "unat (slab_ref b slabs i) < unat (ref_end (slabs ! i))"
    using lt by (simp add: word_less_nat_alt)
  then have "0 < unat (size c)" using us by simp
  then have "0 < size c" by (simp add: word_less_nat_alt)
  then show ?thesis
    using i ul us by (intro block_in_slabI [of _ i]) (simp_all add: r)
qed

lemma rebuild_free_space_Some:
  "rebuild_free_space slabs r fs (Some k) =
     (if k < length slabs then Inl (fs @ take k (whole_slab_chunks r slabs))
      else Inr (fs @ whole_slab_chunks r slabs))"
proof (induction slabs arbitrary: r fs k)
  case Nil
  then show ?case by simp
next
  case (Cons x xs)
  show ?case
  proof (cases k)
    case 0
    then show ?thesis by simp
  next
    case (Suc n)
    then show ?thesis
      using Cons.IH [of "ref_end x" "fs @ [\<lparr>ref = r, size = ref_end x - r\<rparr>]" n]
      by (simp add: whole_slab_chunks_Cons)
  qed
qed

lemma rebuild_free_space_subset:
  "rebuild_free_space slabs r [] fail_at = Inl fs \<or> rebuild_free_space slabs r [] fail_at = Inr fs
   \<Longrightarrow> set fs \<subseteq> set (whole_slab_chunks r slabs)"
  by (cases fail_at)
    (auto simp: rebuild_free_space_None rebuild_free_space_Some split: if_splits dest: in_set_takeD)

lemma reset_inv:
  assumes inv: "alloc_inv s" and rs: "reset_free_space_tracking s fail_at = (res, s')"
  shows "alloc_inv s'" and "m_baseline s' = m_baseline s" and "m_slabs s' = m_slabs s"
    and "m_attach_mode s' = m_attach_mode s"
    and "m_slabs s = [] \<and> m_free_space s = [] \<and> m_free_read_only s = [] \<Longrightarrow>
         m_free_space s' = [] \<and> m_free_read_only s' = []"
proof -
  have wf: "slabs_wf (m_baseline s) (m_slabs s)" using inv by (simp add: alloc_inv_def)
  have all: "alloc_inv s' \<and> m_baseline s' = m_baseline s \<and> m_slabs s' = m_slabs s
      \<and> m_attach_mode s' = m_attach_mode s
      \<and> (m_slabs s = [] \<and> m_free_space s = [] \<and> m_free_read_only s = [] \<longrightarrow>
         m_free_space s' = [] \<and> m_free_read_only s' = [])"
  proof (cases "m_free_space_state s = free_space_Clean")
    case True
    then show ?thesis using rs inv by (simp add: reset_free_space_tracking_def)
  next
    case nc: False
    show ?thesis
    proof (cases "rebuild_free_space (m_slabs s) (m_baseline s) [] fail_at")
      case (Inl fs)
      then have sub: "set fs \<subseteq> set (whole_slab_chunks (m_baseline s) (m_slabs s))"
        using rebuild_free_space_subset by blast
      have s': "s' = s\<lparr>m_free_read_only := [], m_free_space := fs\<rparr>"
        using rs nc Inl by (simp add: reset_free_space_tracking_def Let_def)
      have "alloc_inv s'"
        using wf sub nc whole_slab_chunks_in_slab [OF wf]
        unfolding s' alloc_inv_def chunk_in_slab_def by auto
      then show ?thesis using sub by (auto simp: s')
    next
      case (Inr fs)
      then have fs: "fs = whole_slab_chunks (m_baseline s) (m_slabs s)"
        by (cases fail_at)
          (auto simp: rebuild_free_space_None rebuild_free_space_Some split: if_splits)
      have s': "s' = s\<lparr>m_free_read_only := [], m_free_space := fs\<rparr> \<or>
                s' = s\<lparr>m_free_read_only := [], m_free_space := fs,
                       m_free_space_state := free_space_Clean\<rparr>"
        using rs nc Inr
        by (auto simp: reset_free_space_tracking_def Let_def split: if_splits)
      have "alloc_inv s'"
        using s' wf whole_slab_chunks_in_slab [OF wf]
        unfolding alloc_inv_def chunk_in_slab_def fs by auto
      then show ?thesis using s' by (auto simp: fs)
    qed
  qed
  then show "alloc_inv s'" "m_baseline s' = m_baseline s" "m_slabs s' = m_slabs s"
    "m_attach_mode s' = m_attach_mode s"
    "m_slabs s = [] \<and> m_free_space s = [] \<and> m_free_read_only s = [] \<Longrightarrow>
         m_free_space s' = [] \<and> m_free_read_only s' = []"
    by simp_all
qed

lemma shift_slabs_simps [simp]:
  "shift_slabs d [] = []"
  "shift_slabs d (x # xs) = x\<lparr>ref_end := ref_end x + d\<rparr> # shift_slabs d xs"
  "length (shift_slabs d slabs) = length slabs"
  by (simp_all add: shift_slabs_def)

lemma nth_shift_slabs:
  "i < length slabs \<Longrightarrow> ref_end (shift_slabs d slabs ! i) = ref_end (slabs ! i) + d"
  by (simp add: shift_slabs_def)

lemma rebase_whole:
  "rebase r (whole_slab_chunks b slabs) slabs =
     (whole_slab_chunks r (shift_slabs (r - b) slabs), shift_slabs (r - b) slabs)"
proof (induction slabs arbitrary: r b)
  case Nil
  then show ?case by simp
next
  case (Cons x xs)
  have e: "r + (ref_end x - b) = ref_end x + (r - b)" by simp
  have d: "ref_end x + (r - b) - ref_end x = r - b" by simp
  have s: "ref_end x + (r - b) - r = ref_end x - b" by simp
  show ?case
    using Cons.IH [of "ref_end x + (r - b)" "ref_end x"]
    by (simp add: whole_slab_chunks_Cons e d s Let_def)
qed

lemma slab_ref_shift:
  "i \<le> length slabs \<Longrightarrow> slab_ref r (shift_slabs (r - b) slabs) i = slab_ref b slabs i + (r - b)"
  by (cases i) (simp_all add: slab_ref_def nth_shift_slabs)

lemma slabs_wf_le_total:
  assumes wf: "slabs_wf b slabs" and i: "i < length slabs"
  shows "ref_end (slabs ! i) \<le> ref_end (last slabs)"
proof -
  have "slabs \<noteq> []" using i by auto
  then have "last slabs = slabs ! (length slabs - 1)" by (simp add: last_conv_nth)
  moreover have "i \<le> length slabs - 1 \<and> length slabs - 1 < length slabs"
    using i by arith
  then have "ref_end (slabs ! i) \<le> ref_end (slabs ! (length slabs - 1))"
    by (rule slabs_wf_sorted [OF wf, unfolded ends_sorted_def, rule_format])
  ultimately show ?thesis by simp
qed

lemma slabs_wf_shift:
  assumes wf: "slabs_wf b slabs" and le: "b \<le> r"
    and fits: "slabs \<noteq> [] \<longrightarrow> unat r + (unat (ref_end (last slabs)) - unat b) < 2 ^ 64"
  shows "slabs_wf r (shift_slabs (r - b) slabs)"
  unfolding slabs_wf_iff
proof (intro allI impI)
  fix i assume "i < length (shift_slabs (r - b) slabs)"
  then have i: "i < length slabs" by simp
  then have ne: "slabs \<noteq> []" by auto
  let ?d = "r - b"
  let ?t = "ref_end (last slabs)"
  have ud: "unat ?d = unat r - unat b" using le by (simp add: unat_sub)
  have ble: "unat b \<le> unat r" using le by (simp add: word_le_nat_alt)
  have bt: "unat b \<le> unat ?t"
    using slabs_wf_baseline_le(2) [OF wf, of "length slabs - 1"] ne
    by (simp add: last_conv_nth word_less_nat_alt)
  have bound: "unat ?t + unat ?d < 2 ^ 64" using fits ne ud ble bt by simp
  have lt: "slab_ref b slabs i < ref_end (slabs ! i)" by (rule slabs_wfD [OF wf i])
  have et: "unat (ref_end (slabs ! i)) \<le> unat ?t"
    using slabs_wf_le_total [OF wf i] by (simp add: word_le_nat_alt)
  have ult: "unat (slab_ref b slabs i) < unat (ref_end (slabs ! i))"
    using lt by (simp add: word_less_nat_alt)
  have "unat (ref_end (slabs ! i)) + unat ?d < 2 ^ LENGTH(64)" using et bound by simp
  then have u1: "unat (ref_end (slabs ! i) + ?d) = unat (ref_end (slabs ! i)) + unat ?d"
    by (simp only: unat_add_lem)
  have "unat (slab_ref b slabs i) + unat ?d < 2 ^ LENGTH(64)" using et ult bound by simp
  then have u2: "unat (slab_ref b slabs i + ?d) = unat (slab_ref b slabs i) + unat ?d"
    by (simp only: unat_add_lem)
  have "slab_ref b slabs i + ?d < ref_end (slabs ! i) + ?d"
    using ult by (simp add: word_less_nat_alt u1 u2)
  then show "slab_ref r (shift_slabs ?d slabs) i < ref_end (shift_slabs ?d slabs ! i)"
    using i by (simp add: slab_ref_shift nth_shift_slabs)
qed

lemma block_in_file_mono:
  "block_in_file b r sz \<Longrightarrow> b \<le> b' \<Longrightarrow> block_in_file b' r sz"
  by (auto simp: block_in_file_def word_le_nat_alt)

lemma remap_inv:
  assumes inv: "alloc_inv s" and rm: "remap s file_size remapped = (res, s')"
    and ok: "res \<noteq> Inl AssertionFailed" and fits: "remap_fits s file_size"
  shows "alloc_inv s'" and "m_attach_mode s' = m_attach_mode s" and "is_attached s"
proof -
  have pre: "m_free_space_state s = free_space_Clean" "m_baseline s \<le> file_size"
    "m_attach_mode s = attach_SharedFile \<or> m_attach_mode s = attach_UnsharedFile"
    using rm ok by (auto simp: remap_def split: if_splits)
  show "is_attached s" using pre(3) by (auto simp: is_attached_def)
  have wf: "slabs_wf (m_baseline s) (m_slabs s)" using inv by (simp add: alloc_inv_def)
  have fm: "m_free_space s = whole_slab_chunks (m_baseline s) (m_slabs s)"
    using inv pre(1) by (simp add: alloc_inv_def)
  have all: "alloc_inv s' \<and> m_attach_mode s' = m_attach_mode s"
  proof (cases remapped)
    case None
    then have "s' = s" using rm pre by (auto simp: remap_def split: if_splits)
    then show ?thesis using inv by simp
  next
    case (Some a)
    let ?d = "file_size - m_baseline s"
    have s': "s' = s\<lparr>m_data := a, m_baseline := file_size,
                   m_free_space := whole_slab_chunks file_size (shift_slabs ?d (m_slabs s)),
                   m_slabs := shift_slabs ?d (m_slabs s)\<rparr>"
      using rm pre Some fm ok by (auto simp: remap_def Let_def rebase_whole split: if_splits)
    have f: "m_slabs s \<noteq> [] \<longrightarrow>
        unat file_size + (unat (ref_end (last (m_slabs s))) - unat (m_baseline s)) < 2 ^ 64"
      using fits by (auto simp: remap_fits_def get_total_size_def)
    have wf': "slabs_wf file_size (shift_slabs ?d (m_slabs s))"
      by (rule slabs_wf_shift [OF wf pre(2) f])
    have ro: "\<forall>c \<in> set (m_free_read_only s). block_in_file file_size (ref c) (size c)"
      using inv pre(2) by (auto simp: alloc_inv_def chunk_in_file_def intro: block_in_file_mono)
    have "alloc_inv s'"
      using wf' ro whole_slab_chunks_in_slab [OF wf']
      unfolding s' alloc_inv_def chunk_in_slab_def chunk_in_file_def by simp
    then show ?thesis by (simp add: s')
  qed
  then show "alloc_inv s'" "m_attach_mode s' = m_attach_mode s" by simp_all
qed

lemma alloc_inv_empty:
  "m_slabs s = [] \<Longrightarrow> m_free_space s = [] \<Longrightarrow> m_free_read_only s = [] \<Longrightarrow> alloc_inv s"
  by (simp add: alloc_inv_def slabs_wf_def)

lemma validate_buffer_lists:
  assumes "validate_buffer lib cookie s data sz sh = (res, s')"
  shows "m_slabs s' = m_slabs s" "m_free_space s' = m_free_space s"
    "m_free_read_only s' = m_free_read_only s" "m_attach_mode s' = m_attach_mode s"
    "m_free_space_state s' = m_free_space_state s"
proof -
  have "s' = s \<or> s' = s\<lparr>m_file_on_streaming_form := True\<rparr>"
    using assms by (auto simp: validate_buffer_def Let_def split: if_splits)
  then show "m_slabs s' = m_slabs s" "m_free_space s' = m_free_space s"
    "m_free_read_only s' = m_free_read_only s" "m_attach_mode s' = m_attach_mode s"
    "m_free_space_state s' = m_free_space_state s"
    by auto
qed

lemma attach_empty_lists:
  assumes "attach_empty s = Inr s'"
  shows "\<not> is_attached s" "m_slabs s' = m_slabs s" "m_free_space s' = m_free_space s"
    "m_free_read_only s' = m_free_read_only s"
  using assms by (auto simp: attach_empty_def split: if_splits)

lemma attach_buffer_lists:
  assumes "attach_buffer lib cookie s a data sz = (Inr top_ref, s')"
  shows "\<not> is_attached s" "m_slabs s' = m_slabs s" "m_free_space s' = m_free_space s"
    "m_free_read_only s' = m_free_read_only s"
proof -
  show na: "\<not> is_attached s" using assms by (auto simp: attach_buffer_def split: if_splits)
  obtain res s1 where v: "validate_buffer lib cookie (s\<lparr>m_file_on_streaming_form := False\<rparr>)
      data sz False = (res, s1)"
    by (cases "validate_buffer lib cookie (s\<lparr>m_file_on_streaming_form := False\<rparr>) data sz False")
  note l = validate_buffer_lists [OF v]
  have "s' = s1\<lparr>m_file_format := header_file_format data, m_data := a, m_baseline := sz,
               m_attach_mode := attach_UsersBuffer\<rparr>"
    using assms na v by (cases res) (simp_all add: attach_buffer_def Let_def)
  then show "m_slabs s' = m_slabs s" "m_free_space s' = m_free_space s"
    "m_free_read_only s' = m_free_read_only s"
    using l by simp_all
qed

lemma attach_file_mapped_lists:
  assumes "attach_file_mapped lib cookie s env data sz dc sh sv ssm = (res, s', data')"
  shows "m_slabs s' = m_slabs s" "m_free_space s' = m_free_space s"
    "m_free_read_only s' = m_free_read_only s"
proof -
  let ?s0 = "s\<lparr>m_file_on_streaming_form := False\<rparr>"
  obtain v s1 where v: "(if \<not> sv then validate_buffer lib cookie ?s0 data sz sh else (Inr 0, ?s0)) = (v, s1)"
    by (cases "(if \<not> sv then validate_buffer lib cookie ?s0 data sz sh else (Inr 0, ?s0))")
  have l: "m_slabs s1 = m_slabs s \<and> m_free_space s1 = m_free_space s
      \<and> m_free_read_only s1 = m_free_read_only s"
  proof (cases sv)
    case True
    then show ?thesis using v by auto
  next
    case False
    then have "validate_buffer lib cookie ?s0 data sz sh = (v, s1)" using v by simp
    from validate_buffer_lists [OF this] show ?thesis by simp
  qed
  have "s' = s1 \<or> (\<exists>d. s' = s1\<lparr>m_file_format := header_file_format d, m_data := map_addr env,
      m_baseline := sz, m_attach_mode := (if sh then attach_SharedFile else attach_UnsharedFile)\<rparr>)"
    using assms unfolding attach_file_mapped_def Let_def v
    by (auto split: sum.splits if_splits prod.splits)
  then show "m_slabs s' = m_slabs s" "m_free_space s' = m_free_space s"
    "m_free_read_only s' = m_free_read_only s"
    using l by auto
qed

lemma attach_file_lists:
  assumes "attach_file lib cookie s env sh ro nc sv ssm = (Inr top_ref, s', f')"
  shows "\<not> is_attached s" "m_slabs s' = m_slabs s" "m_free_space s' = m_free_space s"
    "m_free_read_only s' = m_free_read_only s"
proof -
  show "\<not> is_attached s" using assms by (auto simp: attach_file_def split: if_splits)
  have "\<exists>data sz dc res s1 d1. attach_file_mapped lib cookie s env data sz dc sh sv ssm = (res, s1, d1)
      \<and> s' = s1\<lparr>m_free_space_state := free_space_Invalid\<rparr>"
    using assms
    by (auto simp: attach_file_def Let_def split: if_splits prod.splits sum.splits option.splits)
      blast+
  then obtain data sz dc res s1 d1 where
    m: "attach_file_mapped lib cookie s env data sz dc sh sv ssm = (res, s1, d1)"
    and s': "s' = s1\<lparr>m_free_space_state := free_space_Invalid\<rparr>"
    by blast
  show "m_slabs s' = m_slabs s" "m_free_space s' = m_free_space s"
    "m_free_read_only s' = m_free_read_only s"
    using attach_file_mapped_lists [OF m] by (simp_all add: s')
qed

lemma reach_inv_attach:
  assumes inv: "reach_inv s L" and na: "\<not> is_attached s"
    and l: "m_slabs s' = m_slabs s" "m_free_space s' = m_free_space s"
      "m_free_read_only s' = m_free_read_only s"
  shows "reach_inv s' L"
proof -
  have e: "m_slabs s = []" "m_free_space s = []" "m_free_read_only s = []" "L = {}"
    using inv na by (simp_all add: reach_inv_def)
  then have "alloc_inv s'" using l by (intro alloc_inv_empty) simp_all
  then show ?thesis using e l by (simp add: reach_inv_def)
qed

lemma reach_inv_alloc:
  assumes inv: "reach_inv s L" and fits: "new_slab_fits s sz"
    and al: "do_alloc s sz env = (res, s')"
  shows "reach_inv s' (case res of Inr mr \<Rightarrow> insert (m_ref mr, sz) L | Inl e \<Rightarrow> L)"
proof (cases "is_attached s")
  case False
  then have "s' = s" "res = Inl AssertionFailed" using al by (simp_all add: do_alloc_def)
  then show ?thesis using inv by simp
next
  case True
  have ai: "alloc_inv s" using inv by (simp add: reach_inv_def)
  note d = do_alloc_inv [OF ai al fits]
  have att: "is_attached s'" using True d(3) by (simp add: is_attached_def)
  have old: "\<forall>(r, z) \<in> L. block_in_slab (m_baseline s') (m_slabs s') r z"
    using inv d(4) by (auto simp: reach_inv_def)
  show ?thesis
    using d(1) d(5) att old by (cases res) (auto simp: reach_inv_def)
qed

lemma reach_inv_free:
  assumes inv: "reach_inv s L" and fr: "do_free s r a hdr push_ok = Inr s'"
    and valid: "if is_read_only s r then block_in_file (m_baseline s) r (byte_size_from_header hdr)
                else (r, capacity_from_header hdr) \<in> L"
    and sub: "L' \<subseteq> L"
  shows "reach_inv s' L'"
proof -
  have ai: "alloc_inv s" using inv by (simp add: reach_inv_def)
  have v: "if is_read_only s r then block_in_file (m_baseline s) r (byte_size_from_header hdr)
           else block_in_slab (m_baseline s) (m_slabs s) r (capacity_from_header hdr)"
    using valid inv by (auto simp: reach_inv_def)
  note d = do_free_inv [OF ai fr v]
  have att: "is_attached s'" using d(4) d(5) by (simp add: is_attached_def)
  show ?thesis
    using d(1) d(2) d(3) att inv sub by (auto simp: reach_inv_def)
qed

lemma do_free_Inl: "do_free s r a hdr push_ok = Inl e \<Longrightarrow> e = AssertionFailed"
proof (cases "translate s r = Inr a")
  case False
  then show "do_free s r a hdr push_ok = Inl e \<Longrightarrow> e = AssertionFailed"
    by (simp add: do_free_def)
next
  case tr: True
  assume fr: "do_free s r a hdr push_ok = Inl e"
  show "e = AssertionFailed"
  proof (cases "m_free_space_state s = free_space_Invalid")
    case True
    then show ?thesis using fr tr by (simp add: do_free_Invalid)
  next
    case ninv: False
    show ?thesis
    proof (cases "is_read_only s r")
      case True
      obtain fs caught where
        "free_into (m_slabs s) (m_free_read_only s) r (byte_size_from_header hdr) push_ok = (fs, caught)"
        by (cases "free_into (m_slabs s) (m_free_read_only s) r (byte_size_from_header hdr) push_ok")
      from do_free_read_only [OF tr ninv True this] fr show ?thesis by simp
    next
      case False
      show ?thesis
      proof (cases "m_free_space_state s = free_space_Dirty")
        case True
        obtain fs caught where
          "free_into (m_slabs s) (m_free_space s) r (capacity_from_header hdr) push_ok = (fs, caught)"
          by (cases "free_into (m_slabs s) (m_free_space s) r (capacity_from_header hdr) push_ok")
        from do_free_mutable [OF tr True False this] fr show ?thesis by simp
      next
        case nd: False
        then show ?thesis using fr tr ninv False by (simp add: do_free_def Let_def)
      qed
    qed
  qed
qed

lemma reach_inv_realloc:
  assumes inv: "reach_inv s L" and fits: "new_slab_fits s new_size"
    and rl: "do_realloc s r a old_size new_size hdr env push_ok = (res, s')"
    and ok: "res \<noteq> Inl AssertionFailed"
    and valid: "if is_read_only s r then block_in_file (m_baseline s) r (byte_size_from_header hdr)
                else (r, capacity_from_header hdr) \<in> L"
  shows "reach_inv s'
     (case res of Inr mr \<Rightarrow> insert (m_ref mr, new_size) (L - {(r, capacity_from_header hdr)})
      | Inl e \<Rightarrow> L)"
proof -
  obtain res1 s1 where al: "do_alloc s new_size env = (res1, s1)"
    by (cases "do_alloc s new_size env")
  note i1 = reach_inv_alloc [OF inv fits al]
  have pre: "\<not> (translate s r \<noteq> Inr a \<or> \<not> (0 < new_size) \<or> new_size AND 7 \<noteq> 0)"
    using rl ok by (auto simp: do_realloc_def split: if_splits)
  show ?thesis
  proof (cases res1)
    case (Inl e)
    then have "res = Inl e" "s' = s1" using rl pre al by (simp_all add: do_realloc_def)
    then show ?thesis using i1 Inl by simp
  next
    case (Inr mr)
    have fr: "do_free s1 r a hdr push_ok = Inr s'" and res: "res = Inr mr"
      using rl pre al Inr ok by (auto simp: do_realloc_def split: sum.splits dest: do_free_Inl)
    have ai: "alloc_inv s" using inv by (simp add: reach_inv_def)
    have b: "m_baseline s1 = m_baseline s" by (rule do_alloc_inv(2) [OF ai al fits])
    have ro: "is_read_only s1 r = is_read_only s r" by (simp add: is_read_only_def b)
    have v: "if is_read_only s1 r then block_in_file (m_baseline s1) r (byte_size_from_header hdr)
                else (r, capacity_from_header hdr) \<in> insert (m_ref mr, new_size) L"
      using valid by (simp add: ro b)
    have "reach_inv s' (insert (m_ref mr, new_size) (L - {(r, capacity_from_header hdr)}))"
      using i1 Inr by (intro reach_inv_free [OF _ fr v]) auto
    then show ?thesis by (simp add: res)
  qed
qed

lemma reach_inv_reset:
  assumes inv: "reach_inv s L" and rs: "reset_free_space_tracking s fail_at = (res, s')"
    and sub: "L' \<subseteq> L"
  shows "reach_inv s' L'"
proof -
  have ai: "alloc_inv s" using inv by (simp add: reach_inv_def)
  note d = reset_inv [OF ai rs]
  have att: "is_attached s' = is_attached s" using d(4) by (simp add: is_attached_def)
  show ?thesis
    using d(1) d(2) d(3) d(5) att inv sub by (auto simp: reach_inv_def)
qed

lemma reach_inv_remap:
  assumes inv: "reach_inv s L" and fits: "remap_fits s file_size"
    and rm: "remap s file_size remapped = (res, s')" and ok: "res \<noteq> Inl AssertionFailed"
  shows "reach_inv s' (case res of Inr c \<Rightarrow> {} | Inl e \<Rightarrow> L)"
proof -
  have ai: "alloc_inv s" using inv by (simp add: reach_inv_def)
  note d = remap_inv [OF ai rm ok fits]
  have att: "is_attached s'" using d(2) d(3) by (simp add: is_attached_def)
  show ?thesis
  proof (cases res)
    case (Inl e)
    then have "s' = s" using rm ok by (auto simp: remap_def Let_def split: if_splits option.splits prod.splits)
    then show ?thesis using inv Inl by simp
  next
    case (Inr c)
    then show ?thesis using d(1) att by (simp add: reach_inv_def)
  qed
qed

lemma reach_reach_inv:
  assumes "reach lib cookie s L w" and "w"
  shows "reach_inv s L"
  using assms
proof (induction rule: reach.induct)
  case (constructed s)
  then show ?case by (simp add: reach_inv_def alloc_inv_empty is_attached_def)
next
  case (attached_file s L w env is_shared read_only no_create skip_validate server_sync_mode top_ref s' file')
  note l = attach_file_lists [OF attached_file.hyps(2)]
  show ?case by (rule reach_inv_attach [OF attached_file.IH [OF attached_file.prems] l])
next
  case (attached_buffer s L w a data sz top_ref s')
  note l = attach_buffer_lists [OF attached_buffer.hyps(2)]
  show ?case by (rule reach_inv_attach [OF attached_buffer.IH [OF attached_buffer.prems] l])
next
  case (attached_empty s L w s')
  note l = attach_empty_lists [OF attached_empty.hyps(2)]
  show ?case by (rule reach_inv_attach [OF attached_empty.IH [OF attached_empty.prems] l])
next
  case (alloc s L w sz env mem_ref s')
  then show ?case using reach_inv_alloc [of s L sz env "Inr mem_ref" s'] by simp
next
  case (alloc_throws s L w sz env e s')
  then show ?case using reach_inv_alloc [of s L sz env "Inl e" s'] by simp
next
  case (free_mutable s L w r hdr a push_ok s')
  then show ?case by (intro reach_inv_free [of s L r a hdr push_ok s']) auto
next
  case (free_read_only s L w r hdr a push_ok s')
  then show ?case by (intro reach_inv_free [of s L r a hdr push_ok s']) auto
next
  case (realloc s L w r hdr a old_size new_size env push_ok mem_ref s')
  then show ?case
    using reach_inv_realloc [of s L new_size r a old_size hdr env push_ok "Inr mem_ref" s'] by simp
next
  case (realloc_throws s L w r a old_size new_size hdr env push_ok e s')
  have p: "do_realloc s r a old_size new_size hdr env push_ok = (Inl e, s') \<Longrightarrow> e \<noteq> AssertionFailed
     \<Longrightarrow> do_alloc s new_size env = (Inl e, s')
       \<or> (\<exists>mr s1. do_alloc s new_size env = (Inr mr, s1) \<and> do_free s1 r a hdr push_ok = Inl e)"
    by (auto simp: do_realloc_def split: if_splits sum.splits prod.splits)
  have "do_alloc s new_size env = (Inl e, s')"
    using p realloc_throws.hyps(2,3) by (auto dest: do_free_Inl)
  then show ?case
    using reach_inv_alloc [of s L new_size env "Inl e" s'] realloc_throws by simp
next
  case (reset s L w fail_at s')
  then show ?case by (intro reach_inv_reset [of s L fail_at "Inr ()" s']) auto
next
  case (reset_throws s L w fail_at e s')
  then show ?case by (intro reach_inv_reset [of s L fail_at "Inl e" s']) auto
next
  case (remapped s L w file_size new_addr addr_changed s')
  then show ?case
    using reach_inv_remap [of s L file_size new_addr "Inr addr_changed" s'] by simp
next
  case (remap_throws s L w file_size new_addr e s')
  then show ?case
    using reach_inv_remap [of s L file_size new_addr "Inl e" s'] by simp
qed

section \<open>The free lists of the reachable states\<close>

lemma verify_chunk_in_slab:
  assumes wf: "slabs_wf b slabs" and blk: "block_in_slab b slabs (ref c) (size c)"
  shows "verify_chunk slabs c"
proof -
  from blk obtain i where i: "i < length slabs" "unat (slab_ref b slabs i) \<le> unat (ref c)"
    "unat (ref c) + unat (size c) \<le> unat (ref_end (slabs ! i))" "0 < size c"
    by (rule block_in_slabE)
  have p: "0 < unat (size c)" using i(4) by (simp add: word_less_nat_alt)
  have lo: "slab_ref b slabs i \<le> ref c" using i(2) by (simp add: word_le_nat_alt)
  have hi: "ref c < ref_end (slabs ! i)" using i(3) p by (simp add: word_less_nat_alt)
  have ub: "upper_bound slabs (ref c) = i" by (rule upper_bound_in_slab [OF wf i(1) lo hi])
  have "unat (ref c) + unat (size c) < 2 ^ LENGTH(64)"
    using block_in_slab_bound [OF blk] by simp
  then have "unat (ref c + size c) = unat (ref c) + unat (size c)" by (simp only: unat_add_lem)
  then have "ref c + size c \<le> ref_end (slabs ! i)" using i(3) by (simp add: word_le_nat_alt)
  then show ?thesis using i(1) by (simp add: verify_chunk_def ub)
qed

lemma alloc_inv_verify: "alloc_inv s \<Longrightarrow> verify s"
  by (auto simp: verify_def list_all_iff alloc_inv_def chunk_in_slab_def
      intro: verify_chunk_in_slab)

text \<open>
  The free lists of the states reached within the space of refs. In every allocator state
  reached by a sequence of attach, alloc, free, realloc, \<^verbatim>\<open>reset_free_space_tracking\<close> and
  remap calls on a constructed allocator in which the arithmetic of every step stayed
  within the 64-bit space of refs (the flag of \<open>reach\<close> is \<open>True\<close>), every chunk of the
  mutable free list is non-empty and lies entirely within the range of a single slab, and
  every chunk of the read-only free list is non-empty and lies entirely within the
  immutable region \<open>[0, B)\<close>. In particular \<^verbatim>\<open>verify()\<close> passes.
\<close>

lemma free_chunks_within_bounds_in_ref_space:
  assumes "reach library_file_format footer_magic_cookie s L True"
  shows "(\<forall>c \<in> set (m_free_space s).
            0 < size c
          \<and> (\<exists>i < length (m_slabs s).
                unat (slab_ref (m_baseline s) (m_slabs s) i) \<le> unat (ref c)
              \<and> unat (ref c) + unat (size c) \<le> unat (ref_end (m_slabs s ! i))))
       \<and> (\<forall>c \<in> set (m_free_read_only s).
            0 < size c \<and> unat (ref c) + unat (size c) \<le> unat (m_baseline s))
       \<and> verify s"
proof -
  have inv: "alloc_inv s" using reach_reach_inv [OF assms TrueI] by (simp add: reach_inv_def)
  have fm: "0 < size c
          \<and> (\<exists>i < length (m_slabs s).
                unat (slab_ref (m_baseline s) (m_slabs s) i) \<le> unat (ref c)
              \<and> unat (ref c) + unat (size c) \<le> unat (ref_end (m_slabs s ! i)))"
    if "c \<in> set (m_free_space s)" for c
  proof -
    have "block_in_slab (m_baseline s) (m_slabs s) (ref c) (size c)"
      using inv that by (simp add: alloc_inv_def chunk_in_slab_def)
    then show ?thesis by (rule block_in_slabE) blast
  qed
  have fr: "0 < size c \<and> unat (ref c) + unat (size c) \<le> unat (m_baseline s)"
    if "c \<in> set (m_free_read_only s)" for c
    using inv that by (simp add: alloc_inv_def chunk_in_file_def block_in_file_def)
  show ?thesis
    using fm fr alloc_inv_verify [OF inv] by blast
qed

lemma reach_one_slab_alloc: "reach lib cookie one_slab_alloc {(24, 8)} True"
proof -
  have c: "reach lib cookie detached_alloc {} True"
    by (rule reach.constructed) (simp_all add: detached_alloc_def)
  have ae: "attach_empty detached_alloc = Inr empty_alloc"
    by (simp add: attach_empty_def is_attached_def detached_alloc_def empty_alloc_def
        sizeof_Header_def)
  have e: "reach lib cookie empty_alloc {} True"
    by (rule reach.attached_empty [OF c ae])
  have f: "new_slab_fits empty_alloc 8"
    by (simp add: new_slab_fits_def spec_new_slab_size_def round_up_256_def last_slab_size_def
        get_total_size_def empty_alloc_def detached_alloc_def)
  show ?thesis
    using reach.alloc [OF e do_alloc_empty_8] f by simp
qed

lemma free_chunks_within_bounds_one_slab:
  "reach 3 example_cookie one_slab_alloc {(24, 8)} True
   \<and> m_free_space one_slab_alloc = [\<lparr>ref = 32, size = 248\<rparr>]
   \<and> (\<exists>i < length (m_slabs one_slab_alloc).
         unat (slab_ref (m_baseline one_slab_alloc) (m_slabs one_slab_alloc) i) \<le> 32
       \<and> 32 + 248 \<le> unat (ref_end (m_slabs one_slab_alloc ! i)))
   \<and> verify one_slab_alloc"
proof -
  note t = free_chunks_within_bounds_in_ref_space [OF reach_one_slab_alloc [of 3 example_cookie]]
  have fm: "m_free_space one_slab_alloc = [\<lparr>ref = 32, size = 248\<rparr>]"
    by (simp add: one_slab_alloc_def)
  have c: "\<exists>i < length (m_slabs one_slab_alloc).
         unat (slab_ref (m_baseline one_slab_alloc) (m_slabs one_slab_alloc) i) \<le> 32
       \<and> 32 + 248 \<le> unat (ref_end (m_slabs one_slab_alloc ! i))"
    using conjunct1 [OF t] by (simp add: fm)
  show ?thesis
    by (intro conjI reach_one_slab_alloc fm c conjunct2 [OF conjunct2 [OF t]])
qed

section \<open>The example allocators\<close>

lemma translate_one_slab:
  assumes sl: "m_slabs s = [\<lparr>ref_end = e, addr = p\<rparr>]" and att: "is_attached s"
    and lo: "m_baseline s \<le> r" and hi: "r < e"
  shows "translate s r = Inr (p + (r - m_baseline s))"
proof -
  have wf: "slabs_wf (m_baseline s) (m_slabs s)"
    using lo hi by (simp add: slabs_wf_iff sl slab_ref_def)
  have i: "0 < length (m_slabs s)" by (simp add: sl)
  show ?thesis
    using translate_in_slab [OF att wf i] lo hi by (simp add: sl slab_ref_def)
qed

lemma one_slab_alloc_fields:
  "m_slabs one_slab_alloc = [\<lparr>ref_end = 280, addr = 0x20000\<rparr>]"
  "m_free_space one_slab_alloc = [\<lparr>ref = 32, size = 248\<rparr>]"
  "m_free_read_only one_slab_alloc = []"
  "m_baseline one_slab_alloc = 24"
  "m_free_space_state one_slab_alloc = free_space_Dirty"
  "m_attach_mode one_slab_alloc = attach_OwnedBuffer"
  by (simp_all add: one_slab_alloc_def empty_alloc_def detached_alloc_def)

lemma alloc_inv_one_slab:
  assumes "m_slabs s = [\<lparr>ref_end = 280, addr = p\<rparr>]" "m_baseline s = 24"
    "m_free_read_only s = []" "m_free_space s = [\<lparr>ref = lo, size = 280 - lo\<rparr>]"
    "24 \<le> lo" "lo < 280"
    "m_free_space_state s = free_space_Clean \<longrightarrow> lo = 24"
  shows "alloc_inv s"
proof -
  have u: "24 \<le> unat lo" "unat lo < 280"
    using assms(5,6) by (simp_all add: word_le_nat_alt word_less_nat_alt)
  have sz: "unat (280 - lo) = 280 - unat lo"
    using assms(6) by (simp add: unat_sub word_le_nat_alt word_less_nat_alt)
  have pos: "0 < 280 - lo"
    using sz u by (simp add: word_less_nat_alt)
  have wf: "slabs_wf (m_baseline s) (m_slabs s)"
    by (simp add: slabs_wf_iff assms slab_ref_def)
  have c: "chunk_in_slab s \<lparr>ref = lo, size = 280 - lo\<rparr>"
    using u sz pos by (simp add: chunk_in_slab_def block_in_slab_def in_slab_def assms slab_ref_def)
  have cl: "m_free_space_state s = free_space_Clean \<longrightarrow>
            m_free_space s = whole_slab_chunks (m_baseline s) (m_slabs s)"
    using assms(7) by (simp add: whole_slab_chunks_def assms slab_ref_def)
  show ?thesis
    using wf c cl by (simp add: alloc_inv_def assms)
qed

lemma two_blocks_alloc_fields:
  "m_slabs two_blocks_alloc = [\<lparr>ref_end = 280, addr = 0x20000\<rparr>]"
  "m_free_space two_blocks_alloc = [\<lparr>ref = 40, size = 240\<rparr>]"
  "m_free_read_only two_blocks_alloc = []"
  "m_baseline two_blocks_alloc = 24"
  "m_free_space_state two_blocks_alloc = free_space_Dirty"
  "m_attach_mode two_blocks_alloc = attach_OwnedBuffer"
  by (simp_all add: two_blocks_alloc_def one_slab_alloc_fields)


section \<open>A request whose new slab wraps around\<close>

text \<open>
  \<^verbatim>\<open>do_alloc\<close> computes the size of a new slab, the end of the slab and the trailing chunk
  in \<^verbatim>\<open>size_t\<close>, without a check. For the request of \<open>2 ^ 64 - 8\<close> bytes on the allocator
  with one slab of 256 bytes, \<open>((size - 1) | 255) + 1\<close> is 0, which the minimum of twice the
  last slab raises to 512; \<open>new_size - size\<close> is 520 and \<open>ref + size\<close> is 272.
\<close>

lemma overflow_alloc_fields:
  "m_slabs overflow_alloc = [\<lparr>ref_end = 280, addr = 0x20000\<rparr>, \<lparr>ref_end = 792, addr = 0x30000\<rparr>]"
  "m_free_space overflow_alloc = [\<lparr>ref = 32, size = 248\<rparr>, \<lparr>ref = 272, size = 520\<rparr>]"
  "m_free_read_only overflow_alloc = []"
  "m_baseline overflow_alloc = 24"
  "m_free_space_state overflow_alloc = free_space_Dirty"
  "m_attach_mode overflow_alloc = attach_OwnedBuffer"
  by (simp_all add: overflow_alloc_def one_slab_alloc_fields)

lemma wrap_arith:
  "(((0xFFFFFFFFFFFFFFF8 :: 64 word) - 1) OR 255) + 1 = 0"
  "(512 :: 64 word) - 0xFFFFFFFFFFFFFFF8 = 520"
  "(280 :: 64 word) + 0xFFFFFFFFFFFFFFF8 = 272"
  by simp_all

lemma do_alloc_one_slab_wraps:
  "do_alloc one_slab_alloc 0xFFFFFFFFFFFFFFF8 (good_heap_at 0x30000) =
     (Inr \<lparr>m_addr = 0x30000, m_ref = 280\<rparr>, overflow_alloc)"
proof -
  note f = one_slab_alloc_fields
  have ns: "new_slab_size one_slab_alloc 0xFFFFFFFFFFFFFFF8 = 512"
    by (simp add: new_slab_size_def Let_def f wrap_arith(1))
  have nr: "new_slab_ref one_slab_alloc = 280"
    by (simp add: new_slab_ref_def f)
  have scan: "scan_free_space (m_free_space one_slab_alloc) 0xFFFFFFFFFFFFFFF8
      (length (m_free_space one_slab_alloc)) = None"
    by (simp add: f)
  have nofit: "\<forall>c \<in> set (m_free_space one_slab_alloc). size c < 0xFFFFFFFFFFFFFFF8"
    by (simp add: f)
  have att: "is_attached one_slab_alloc" by (simp add: is_attached_def f)
  have st: "m_free_space_state one_slab_alloc \<noteq> free_space_Invalid" by (simp add: f)
  have np: "0 < new_slab_size one_slab_alloc 0xFFFFFFFFFFFFFFF8" by (simp add: ns)
  have env: "new_char_array (good_heap_at 0x30000) = Some 0x30000"
    "slabs_push_back_ok (good_heap_at 0x30000)" "free_space_push_back_ok (good_heap_at 0x30000)"
    by (simp_all add: good_heap_at_def)
  note g = do_alloc_grow [OF _ _ att st nofit np env, unfolded ns nr wrap_arith(2,3)]
  have "do_alloc one_slab_alloc 0xFFFFFFFFFFFFFFF8 (good_heap_at 0x30000) =
     (Inr \<lparr>m_addr = 0x30000, m_ref = 280\<rparr>,
      one_slab_alloc\<lparr>m_free_space_state := free_space_Dirty,
        m_slabs := [\<lparr>ref_end = 280, addr = 0x20000\<rparr>, \<lparr>ref_end = 792, addr = 0x30000\<rparr>],
        m_free_space := [\<lparr>ref = 32, size = 248\<rparr>, \<lparr>ref = 272, size = 520\<rparr>]\<rparr>)"
    using g by (simp add: f)
  then show ?thesis
    by (simp add: overflow_alloc_def one_slab_alloc_def)
qed

lemma not_new_slab_fits_wraps: "\<not> new_slab_fits one_slab_alloc 0xFFFFFFFFFFFFFFF8"
  by (simp add: new_slab_fits_def spec_new_slab_size_def round_up_256_def last_slab_size_def
      get_total_size_def slab_ref_def one_slab_alloc_fields)

lemma spec_size_wraps:
  "max (round_up_256 (unat (0xFFFFFFFFFFFFFFF8 :: size_t))) (2 * last_slab_size one_slab_alloc)
     = 2 ^ 64"
  by (simp add: round_up_256_def last_slab_size_def slab_ref_def one_slab_alloc_fields)

lemma overflow_not_verify: "\<not> verify overflow_alloc"
proof -
  note f = overflow_alloc_fields
  have wf: "slabs_wf (m_baseline overflow_alloc) (m_slabs overflow_alloc)"
    by (simp add: slabs_wf_iff slab_ref_def f less_Suc_eq)
  have "upper_bound (m_slabs overflow_alloc) 272 = 0"
    by (rule upper_bound_in_slab [OF wf]) (simp_all add: f slab_ref_def)
  then have "\<not> verify_chunk (m_slabs overflow_alloc) \<lparr>ref = 272, size = 520\<rparr>"
    by (simp add: verify_chunk_def f)
  then show ?thesis by (simp add: verify_def f)
qed

lemma overflow_chunk_crosses: "\<not> chunk_in_slab overflow_alloc \<lparr>ref = 272, size = 520\<rparr>"
  by (auto simp: chunk_in_slab_def block_in_slab_def in_slab_def slab_ref_def
      overflow_alloc_fields less_Suc_eq)

text \<open>
  Claim C3. \<open>alloc(size)\<close> with \<open>size > 0\<close>, \<open>size mod 8 = 0\<close> and a free-space state that
  is not Invalid, which no chunk of the mutable free list can satisfy, appends one slab
  whose size is the larger of \<open>size\<close> rounded up to the next multiple of 256 and twice the
  size of the last slab, and pushes the trailing chunk if \<open>new_size > size\<close>. The code
  does so for every request whose new slab fits the space of refs
  (\<open>do_alloc_new_slab_in_ref_space\<close>), and not beyond: on the allocator with one slab of
  256 bytes, the request of \<open>2 ^ 64 - 8\<close> bytes meets the preconditions and no chunk can
  satisfy it; the size of the claim is \<open>2 ^ 64\<close>, but the code appends a slab of 512 bytes
  (its end is 792) and returns its start, ref 280, for the block; and although the new
  size is below the size requested, it pushes the chunk \<open>{272, 520}\<close>, which begins inside
  the first slab. The comment of the source says "Round up to nearest multiple of 256",
  and on an allocator without a slab the same request fails the assertion
  \<open>0 < new_size\<close>.
\<close>

theorem do_alloc_new_slab_wraps:
  "0 < (0xFFFFFFFFFFFFFFF8 :: size_t) \<and> (0xFFFFFFFFFFFFFFF8 :: size_t) mod 8 = 0
   \<and> is_attached one_slab_alloc
   \<and> m_free_space_state one_slab_alloc \<noteq> free_space_Invalid
   \<and> scan_free_space (m_free_space one_slab_alloc) 0xFFFFFFFFFFFFFFF8
         (length (m_free_space one_slab_alloc)) = None
   \<and> max (round_up_256 (unat (0xFFFFFFFFFFFFFFF8 :: size_t))) (2 * last_slab_size one_slab_alloc)
       = 2 ^ 64
   \<and> do_alloc one_slab_alloc 0xFFFFFFFFFFFFFFF8 (good_heap_at 0x30000) =
       (Inr \<lparr>m_addr = 0x30000, m_ref = 280\<rparr>, overflow_alloc)
   \<and> m_slabs overflow_alloc = m_slabs one_slab_alloc @ [\<lparr>ref_end = 280 + 512, addr = 0x30000\<rparr>]
   \<and> m_free_space overflow_alloc = m_free_space one_slab_alloc @ [\<lparr>ref = 272, size = 520\<rparr>]
   \<and> (512 :: size_t) < 0xFFFFFFFFFFFFFFF8
   \<and> fst (do_alloc empty_alloc 0xFFFFFFFFFFFFFFF8 good_heap) = Inl AssertionFailed"
proof -
  note f = one_slab_alloc_fields
  have p1: "0 < (0xFFFFFFFFFFFFFFF8 :: size_t)" "(0xFFFFFFFFFFFFFFF8 :: size_t) mod 8 = 0"
    by simp_all
  have p2: "is_attached one_slab_alloc" "m_free_space_state one_slab_alloc \<noteq> free_space_Invalid"
    by (simp_all add: is_attached_def f)
  have p3: "scan_free_space (m_free_space one_slab_alloc) 0xFFFFFFFFFFFFFFF8
         (length (m_free_space one_slab_alloc)) = None"
    by (simp add: f)
  have p4: "m_slabs overflow_alloc = m_slabs one_slab_alloc @ [\<lparr>ref_end = 280 + 512, addr = 0x30000\<rparr>]"
    "m_free_space overflow_alloc = m_free_space one_slab_alloc @ [\<lparr>ref = 272, size = 520\<rparr>]"
    by (simp_all add: f overflow_alloc_fields)
  have p5: "(512 :: size_t) < 0xFFFFFFFFFFFFFFF8" by simp
  have p6: "fst (do_alloc empty_alloc 0xFFFFFFFFFFFFFFF8 good_heap) = Inl AssertionFailed"
    by (simp add: do_alloc_def Let_def is_attached_def new_slab_size_def wrap_arith(1)
        empty_alloc_def detached_alloc_def)
  show ?thesis
    by (intro conjI p1 p2 p3 spec_size_wraps do_alloc_one_slab_wraps p4 p5 p6)
qed

theorem do_alloc_new_slab_wraps_witness:
  "m_slabs (snd (do_alloc one_slab_alloc 0xFFFFFFFFFFFFFFF8 (good_heap_at 0x30000))) =
     [\<lparr>ref_end = 280, addr = 0x20000\<rparr>, \<lparr>ref_end = 792, addr = 0x30000\<rparr>]
   \<and> m_free_space (snd (do_alloc one_slab_alloc 0xFFFFFFFFFFFFFFF8 (good_heap_at 0x30000))) =
     [\<lparr>ref = 32, size = 248\<rparr>, \<lparr>ref = 272, size = 520\<rparr>]
   \<and> fst (do_alloc one_slab_alloc 0xFFFFFFFFFFFFFFF8 (good_heap_at 0x30000)) =
     Inr \<lparr>m_addr = 0x30000, m_ref = 280\<rparr>"
  using do_alloc_new_slab_wraps by (simp add: one_slab_alloc_fields)

text \<open>
  Claim C1. In every reachable allocator state (after any sequence of attach, alloc, free,
  realloc, \<^verbatim>\<open>reset_free_space_tracking\<close> and remap calls), every chunk of the mutable
  free list lies entirely within the range of a single slab, and every chunk of the
  read-only free list within \<open>[0, B)\<close>. \<^verbatim>\<open>verify()\<close> asserts the first part, and the
  code keeps it as long as no step wraps around (\<open>free_chunks_within_bounds_in_ref_space\<close>).
  It breaks it on the sequence \<open>attach_empty\<close>, \<open>alloc(8)\<close>, \<open>alloc(2 ^ 64 - 8)\<close>, each call
  of which it accepts: the state reached holds the slabs \<open>[24, 280)\<close> and \<open>[280, 792)\<close> and
  the free chunk \<open>{272, 520}\<close>, which covers \<open>[272, 792)\<close> across the boundary at 280 and
  lies in neither slab, and \<^verbatim>\<open>verify()\<close> fails its assertion there.
\<close>

theorem free_chunk_crosses_slab_boundary:
  "attach_empty detached_alloc = Inr empty_alloc
   \<and> do_alloc empty_alloc 8 good_heap = (Inr \<lparr>m_addr = 0x20000, m_ref = 24\<rparr>, one_slab_alloc)
   \<and> do_alloc one_slab_alloc 0xFFFFFFFFFFFFFFF8 (good_heap_at 0x30000) =
       (Inr \<lparr>m_addr = 0x30000, m_ref = 280\<rparr>, overflow_alloc)
   \<and> reach 3 example_cookie overflow_alloc {(280, 0xFFFFFFFFFFFFFFF8), (24, 8)} False
   \<and> m_slabs overflow_alloc =
       [\<lparr>ref_end = 280, addr = 0x20000\<rparr>, \<lparr>ref_end = 792, addr = 0x30000\<rparr>]
   \<and> m_free_space overflow_alloc = [\<lparr>ref = 32, size = 248\<rparr>, \<lparr>ref = 272, size = 520\<rparr>]
   \<and> \<not> chunk_in_slab overflow_alloc \<lparr>ref = 272, size = 520\<rparr>
   \<and> \<not> verify overflow_alloc"
proof -
  have ae: "attach_empty detached_alloc = Inr empty_alloc"
    by (simp add: attach_empty_def is_attached_def detached_alloc_def empty_alloc_def
        sizeof_Header_def)
  have r: "reach 3 example_cookie overflow_alloc {(280, 0xFFFFFFFFFFFFFFF8), (24, 8)} False"
    using reach.alloc [OF reach_one_slab_alloc do_alloc_one_slab_wraps, of 3 example_cookie]
      not_new_slab_fits_wraps
    by simp
  show ?thesis
    by (intro conjI ae do_alloc_empty_8 do_alloc_one_slab_wraps r overflow_alloc_fields(1,2)
        overflow_chunk_crosses overflow_not_verify)
qed

theorem free_chunk_crosses_slab_boundary_witness:
  "\<not> verify (snd (do_alloc one_slab_alloc 0xFFFFFFFFFFFFFFF8 (good_heap_at 0x30000)))
   \<and> \<not> chunk_in_slab (snd (do_alloc one_slab_alloc 0xFFFFFFFFFFFFFFF8 (good_heap_at 0x30000)))
         \<lparr>ref = 272, size = 520\<rparr>
   \<and> \<lparr>ref = 272, size = 520\<rparr>
       \<in> set (m_free_space (snd (do_alloc one_slab_alloc 0xFFFFFFFFFFFFFFF8 (good_heap_at 0x30000))))"
  using free_chunk_crosses_slab_boundary by simp

section \<open>The append of a freed chunk, and the Invalid state\<close>

lemma free_into_appends:
  assumes "appends_chunk slabs fs r sz"
  shows "free_into slabs fs r sz push_ok =
     (if push_ok then (fs @ [\<lparr>ref = r, size = sz\<rparr>], False) else (fs, True))"
proof -
  have ms: "merge_succ slabs fs r sz = (fs, None)"
    using assms by (auto simp: appends_chunk_def merge_succ_def split: option.splits)
  have pr: "(if find_if (SlabRefEndEq r) slabs = None then find_if (ChunkRefEndEq r) fs else None) = None"
    using assms by (auto simp: appends_chunk_def)
  show ?thesis
    by (simp add: free_into_merge_succ ms pr)
qed

lemma free_into_merges:
  assumes "\<not> appends_chunk slabs fs r sz"
  shows "free_into slabs fs r sz push_ok = free_into slabs fs r sz True
       \<and> \<not> snd (free_into slabs fs r sz push_ok)"
proof (cases rule: merge_succ_cases [of slabs fs r sz])
  case none
  from none(2) assms
  have p: "find_if (SlabRefEndEq r) slabs = None" and "find_if (ChunkRefEndEq r) fs \<noteq> None"
    by (auto simp: appends_chunk_def)
  then obtain i where i: "find_if (ChunkRefEndEq r) fs = Some i" by auto
  show ?thesis
    by (simp add: free_into_merge_succ none(1) p i)
next
  case (merged j)
  show ?thesis
    by (simp add: free_into_merge_succ merged(1) split: option.splits)
qed

lemma do_alloc_succeeds:
  assumes inv: "alloc_inv s" and pos: "0 < sz" and al: "sz AND 7 = 0" and att: "is_attached s"
    and st: "m_free_space_state s \<noteq> free_space_Invalid"
    and fits: "new_slab_fits s sz"
    and env: "new_char_array env \<noteq> None" "slabs_push_back_ok env" "free_space_push_back_ok env"
  shows "\<exists>mr s'. do_alloc s sz env = (Inr mr, s')"
proof (cases "scan_free_space (m_free_space s) sz (length (m_free_space s))")
  case None
  then have nofit: "\<forall>c \<in> set (m_free_space s). size c < sz"
    by (simp add: scan_free_space_no_fit)
  have wf: "slabs_wf (m_baseline s) (m_slabs s)" using inv by (simp add: alloc_inv_def)
  obtain mem where mem: "new_char_array env = Some mem" using env(1) by auto
  note f = new_slab_facts [OF pos wf fits]
  show ?thesis
    using do_alloc_grow [OF pos al att st nofit f(2) mem env(2,3)] by blast
next
  case (Some i)
  have wf: "slabs_wf (m_baseline s) (m_slabs s)" using inv by (simp add: alloc_inv_def)
  have i: "i < length (m_free_space s)" using scan_free_space_Some [OF Some] by simp
  then have "block_in_slab (m_baseline s) (m_slabs s) (ref (m_free_space s ! i)) (size (m_free_space s ! i))"
    using inv by (simp add: alloc_inv_def chunk_in_slab_def)
  then obtain a where "translate s (ref (m_free_space s ! i)) = Inr a"
    using block_in_slab_translate [OF att wf] by blast
  then show ?thesis
    using do_alloc_reuse [OF pos al att st Some] by blast
qed

lemma do_alloc_Invalid_unchanged:
  "m_free_space_state s = free_space_Invalid \<Longrightarrow> snd (do_alloc s sz env) = s"
  by (simp add: do_alloc_def)

lemma reset_Inr_Clean:
  "reset_free_space_tracking s fail_at = (Inr (), s') \<Longrightarrow> m_free_space_state s' = free_space_Clean"
  by (auto simp: reset_free_space_tracking_def Let_def split: if_splits sum.splits)


text \<open>
  Claim C5. A free reaches the \<^verbatim>\<open>push_back\<close> of the new chunk when no merge took place
  (\<open>appends_chunk\<close>). If that \<^verbatim>\<open>push_back\<close> throws, \<open>do_free\<close> returns normally, the
  free-space state is Invalid and nothing else has changed. While the state is Invalid,
  \<open>do_alloc\<close> leaves the allocator as it is and, called within its preconditions, throws
  \<open>InvalidFreeSpace\<close>; \<open>do_free\<close> of a block returns without recording anything;
  \<open>get_free_read_only\<close> throws \<open>InvalidFreeSpace\<close>. After a
  \<open>reset_free_space_tracking\<close> that returns normally the state is Clean and \<open>do_alloc\<close>
  returns a block, provided the heap serves the request and a new slab, if one is needed,
  fits the space of refs.
\<close>

theorem invalid_free_space_sticks:
  "(translate s r = Inr a \<and> m_free_space_state s \<noteq> free_space_Invalid
      \<and> (is_read_only s r \<or> m_free_space_state s = free_space_Dirty)
      \<and> appends_chunk (m_slabs s)
           (if is_read_only s r then m_free_read_only s else m_free_space s) r
           (if is_read_only s r then byte_size_from_header hdr else capacity_from_header hdr)
      \<longrightarrow> do_free s r a hdr False = Inr (s\<lparr>m_free_space_state := free_space_Invalid\<rparr>))
   \<and> (m_free_space_state s = free_space_Invalid \<longrightarrow>
          snd (do_alloc s sz env) = s
        \<and> (0 < sz \<and> sz AND 7 = 0 \<and> is_attached s \<longrightarrow>
             fst (do_alloc s sz env) = Inl InvalidFreeSpace)
        \<and> (translate s r = Inr a \<longrightarrow> do_free s r a hdr push_ok = Inr s)
        \<and> get_free_read_only s = Inl InvalidFreeSpace)
   \<and> (alloc_inv s \<and> is_attached s
        \<and> reset_free_space_tracking s fail_at = (Inr (), s')
        \<and> 0 < sz \<and> sz AND 7 = 0 \<and> new_slab_fits s' sz
        \<and> new_char_array env \<noteq> None \<and> slabs_push_back_ok env \<and> free_space_push_back_ok env
      \<longrightarrow> m_free_space_state s' = free_space_Clean
          \<and> (\<exists>mr s''. do_alloc s' sz env = (Inr mr, s'')))"
proof -
  have a: "do_free s r a hdr False = Inr (s\<lparr>m_free_space_state := free_space_Invalid\<rparr>)"
    if tr: "translate s r = Inr a" and st: "m_free_space_state s \<noteq> free_space_Invalid"
      and ok: "is_read_only s r \<or> m_free_space_state s = free_space_Dirty"
      and ap: "appends_chunk (m_slabs s)
           (if is_read_only s r then m_free_read_only s else m_free_space s) r
           (if is_read_only s r then byte_size_from_header hdr else capacity_from_header hdr)"
  proof (cases "is_read_only s r")
    case True
    have "free_into (m_slabs s) (m_free_read_only s) r (byte_size_from_header hdr) False
          = (m_free_read_only s, True)"
      using ap True by (simp add: free_into_appends)
    from do_free_read_only [OF tr st True this] show ?thesis by simp
  next
    case False
    then have d: "m_free_space_state s = free_space_Dirty" using ok by simp
    have "free_into (m_slabs s) (m_free_space s) r (capacity_from_header hdr) False
          = (m_free_space s, True)"
      using ap False by (simp add: free_into_appends)
    from do_free_mutable [OF tr d False this] show ?thesis by simp
  qed
  have b: "snd (do_alloc s sz env) = s
        \<and> (0 < sz \<and> sz AND 7 = 0 \<and> is_attached s \<longrightarrow>
             fst (do_alloc s sz env) = Inl InvalidFreeSpace)
        \<and> (translate s r = Inr a \<longrightarrow> do_free s r a hdr push_ok = Inr s)
        \<and> get_free_read_only s = Inl InvalidFreeSpace"
    if st: "m_free_space_state s = free_space_Invalid"
    using st
    by (simp add: do_alloc_Invalid_unchanged do_alloc_Invalid do_free_Invalid get_free_read_only_def)
  have c: "m_free_space_state s' = free_space_Clean
          \<and> (\<exists>mr s''. do_alloc s' sz env = (Inr mr, s''))"
    if inv: "alloc_inv s" and att: "is_attached s"
      and rs: "reset_free_space_tracking s fail_at = (Inr (), s')"
      and sz: "0 < sz" "sz AND 7 = 0" and fits: "new_slab_fits s' sz"
      and env: "new_char_array env \<noteq> None" "slabs_push_back_ok env" "free_space_push_back_ok env"
  proof -
    have cl: "m_free_space_state s' = free_space_Clean" by (rule reset_Inr_Clean [OF rs])
    have inv': "alloc_inv s'" by (rule reset_inv(1) [OF inv rs])
    have att': "is_attached s'" using att reset_inv(4) [OF inv rs] by (simp add: is_attached_def)
    have "m_free_space_state s' \<noteq> free_space_Invalid" using cl by simp
    from do_alloc_succeeds [OF inv' sz att' this fits env] cl show ?thesis by simp
  qed
  show ?thesis using a b c by blast
qed


theorem invalid_free_space_sticks_witness:
  "do_free two_blocks_alloc 24 0x20000 header_8 False =
     Inr (two_blocks_alloc\<lparr>m_free_space_state := free_space_Invalid\<rparr>)
   \<and> do_alloc (two_blocks_alloc\<lparr>m_free_space_state := free_space_Invalid\<rparr>) 8 good_heap =
       (Inl InvalidFreeSpace, two_blocks_alloc\<lparr>m_free_space_state := free_space_Invalid\<rparr>)
   \<and> do_free (two_blocks_alloc\<lparr>m_free_space_state := free_space_Invalid\<rparr>) 32 0x20008 header_8 True =
       Inr (two_blocks_alloc\<lparr>m_free_space_state := free_space_Invalid\<rparr>)
   \<and> get_free_read_only (two_blocks_alloc\<lparr>m_free_space_state := free_space_Invalid\<rparr>) =
       Inl InvalidFreeSpace
   \<and> reset_free_space_tracking (two_blocks_alloc\<lparr>m_free_space_state := free_space_Invalid\<rparr>) None =
       (Inr (), two_blocks_alloc\<lparr>m_free_read_only := [],
                  m_free_space := [\<lparr>ref = 24, size = 256\<rparr>],
                  m_free_space_state := free_space_Clean\<rparr>)
   \<and> (\<exists>mr s''. do_alloc (two_blocks_alloc\<lparr>m_free_read_only := [],
                  m_free_space := [\<lparr>ref = 24, size = 256\<rparr>],
                  m_free_space_state := free_space_Clean\<rparr>) 8 good_heap = (Inr mr, s''))"
proof -
  let ?inv = "two_blocks_alloc\<lparr>m_free_space_state := free_space_Invalid\<rparr>"
  let ?clean = "two_blocks_alloc\<lparr>m_free_read_only := [],
                  m_free_space := [\<lparr>ref = 24, size = 256\<rparr>],
                  m_free_space_state := free_space_Clean\<rparr>"
  note f = two_blocks_alloc_fields
  have att: "is_attached two_blocks_alloc" "is_attached ?inv"
    by (simp_all add: is_attached_def f)
  have tr1: "translate two_blocks_alloc 24 = Inr 0x20000"
    using translate_one_slab [OF f(1) att(1), of 24] by (simp add: f)
  have tr2: "translate ?inv 32 = Inr 0x20008"
    using translate_one_slab [of ?inv 280 "0x20000" 32] att(2) by (simp add: f)
  have ap: "appends_chunk (m_slabs two_blocks_alloc) (m_free_space two_blocks_alloc) 24 8"
    by (simp add: appends_chunk_def f ChunkRefEq_def ChunkRefEndEq_def)
  have ro: "\<not> is_read_only two_blocks_alloc 24"
    by (simp add: is_read_only_def f)
  have c1: "do_free two_blocks_alloc 24 0x20000 header_8 False = Inr ?inv"
    using invalid_free_space_sticks [where s = two_blocks_alloc and r = 24 and a = "0x20000"
        and hdr = header_8] tr1 ap ro
    by (simp add: f header_8_def)
  note t2 = invalid_free_space_sticks [where s = ?inv and r = 32 and a = "0x20008"
        and hdr = header_8 and sz = 8 and env = good_heap and push_ok = True,
        THEN conjunct2, THEN conjunct1]
  have st: "m_free_space_state ?inv = free_space_Invalid" by simp
  have c2: "do_alloc ?inv 8 good_heap = (Inl InvalidFreeSpace, ?inv)"
    using t2 st att(2) by (simp add: prod_eq_iff)
  have c3: "do_free ?inv 32 0x20008 header_8 True = Inr ?inv"
    using t2 st tr2 by simp
  have c4: "get_free_read_only ?inv = Inl InvalidFreeSpace"
    using t2 st by simp
  have wf: "slabs_wf (m_baseline ?inv) (m_slabs ?inv)"
    by (simp add: slabs_wf_iff slab_ref_def f)
  have c5: "reset_free_space_tracking ?inv None = (Inr (), ?clean)"
    using reset_not_clean [OF _ wf] by (simp add: whole_slab_chunks_def slab_ref_def f)
  have inv: "alloc_inv ?inv"
    by (rule alloc_inv_one_slab [where lo = 40 and p = "0x20000"]) (simp_all add: f)
  have fits: "new_slab_fits ?clean 8"
    by (simp add: new_slab_fits_def spec_new_slab_size_def round_up_256_def last_slab_size_def
        get_total_size_def slab_ref_def f)
  have env: "new_char_array good_heap \<noteq> None" "slabs_push_back_ok good_heap"
    "free_space_push_back_ok good_heap"
    by (simp_all add: good_heap_def good_heap_at_def)
  have c6: "\<exists>mr s''. do_alloc ?clean 8 good_heap = (Inr mr, s'')"
    using invalid_free_space_sticks [where s = ?inv and fail_at = None and s' = ?clean
        and sz = 8 and env = good_heap, THEN conjunct2, THEN conjunct2]
      inv att(2) c5 fits env
    by simp
  show ?thesis
    by (intro conjI c1 c2 c3 c4 c5 c6)
qed

section \<open>A free that merges with both neighbours\<close>

lemma erase_move_last_update_same:
  "erase_move_last (xs[j := y]) j = erase_move_last xs j"
proof (cases "j < length xs")
  case False
  then show ?thesis by (simp add: erase_move_last_def list_update_beyond)
next
  case True
  then have ne: "xs \<noteq> []" by auto
  show ?thesis
  proof (cases "j = length xs - 1")
    case l: True
    have "last (xs[j := y]) = y" using ne l by (simp add: last_list_update)
    then have "erase_move_last (xs[j := y]) j = butlast (xs[j := y])"
      by (simp add: erase_move_last_def)
    also have "\<dots> = butlast xs" using l by (simp add: butlast_list_update)
    finally have a: "erase_move_last (xs[j := y]) j = butlast xs" .
    have "xs ! j = last xs" using ne l by (simp add: last_conv_nth)
    then have "xs[j := last xs] = xs" using True by (simp add: list_update_same_conv)
    then have "erase_move_last xs j = butlast xs" by (simp add: erase_move_last_def)
    then show ?thesis using a by simp
  next
    case False
    then have "last (xs[j := y]) = last xs" using ne by (simp add: last_list_update)
    then show ?thesis by (simp add: erase_move_last_def)
  qed
qed

lemma length_erase_move_last: "length (erase_move_last xs j) = length xs - 1"
  by (simp add: erase_move_last_def)

lemma mset_erase_move_last:
  assumes "j < length xs"
  shows "add_mset (xs ! j) (mset (erase_move_last xs j)) = mset xs"
proof -
  have ne: "xs \<noteq> []" using assms by auto
  have "mset xs = mset (butlast xs @ [last xs])" using ne by simp
  then have mx: "mset xs = add_mset (last xs) (mset (butlast xs))" by simp
  show ?thesis
  proof (cases "j = length xs - 1")
    case True
    then have l: "xs ! j = last xs" using ne by (simp add: last_conv_nth)
    have "xs[j := last xs] = xs"
      using l by (simp add: list_update_same_conv assms)
    then have "erase_move_last xs j = butlast xs"
      by (simp add: erase_move_last_def)
    then show ?thesis using mx l by simp
  next
    case False
    then have j: "j < length (butlast xs)" using assms by simp
    have "xs[j := last xs] = (butlast xs @ [last xs])[j := last xs]" using ne by simp
    also have "\<dots> = (butlast xs)[j := last xs] @ [last xs]"
      using j by (simp only: list_update_append1)
    finally have e: "erase_move_last xs j = (butlast xs)[j := last xs]"
      by (simp add: erase_move_last_def)
    have n: "butlast xs ! j = xs ! j" using j by (simp add: nth_butlast)
    have m: "xs ! j \<in># mset (butlast xs)" using j n by (metis nth_mem_mset)
    show ?thesis
      using m j n by (simp add: e mx mset_update)
  qed
qed

lemma mset_list_update:
  assumes "i < length xs"
  shows "add_mset (xs ! i) (mset (xs[i := y])) = add_mset y (mset xs)"
  using assms by (simp add: mset_update nth_mem_mset)


lemma block_in_slab_no_wrap:
  assumes "block_in_slab b slabs r sz"
  shows "0 < sz" and "unat r + unat sz < 2 ^ 64" and "unat (r + sz) = unat r + unat sz"
proof -
  from assms obtain i where i: "i < length slabs"
    and hi: "unat r + unat sz \<le> unat (ref_end (slabs ! i))" and pos: "0 < sz"
    by (auto simp: block_in_slab_def in_slab_def)
  have "unat (ref_end (slabs ! i)) < 2 ^ 64"
    using unsigned_less [of "ref_end (slabs ! i)"] by simp
  then show lt: "unat r + unat sz < 2 ^ 64" using hi by simp
  show "0 < sz" by (rule pos)
  show "unat (r + sz) = unat r + unat sz"
    using lt by (simp add: unat_add_lem [THEN iffD1])
qed

lemma free_into_coalesces_both:
  assumes cj: "block_in_slab b slabs (ref (fs ! j)) (size (fs ! j))"
    and ci: "block_in_slab b slabs (ref (fs ! i)) (size (fs ! i))"
    and blk: "block_in_slab b slabs r sz"
    and succ: "find_if (ChunkRefEq (r + sz)) fs = Some j"
    and nb1: "find_if (SlabRefEndEq (r + sz)) slabs = None"
    and pred: "find_if (ChunkRefEndEq r) fs = Some i"
    and nb2: "find_if (SlabRefEndEq r) slabs = None"
  shows "i \<noteq> j"
    and "free_into slabs fs r sz push_ok =
       (erase_move_last
          (fs[i := \<lparr>ref = ref (fs ! i), size = size (fs ! i) + sz + size (fs ! j)\<rparr>]) j, False)"
    and "unat (ref (fs ! i)) + unat (size (fs ! i)) = unat r"
    and "unat r + unat sz = unat (ref (fs ! j))"
    and "unat (size (fs ! i) + sz + size (fs ! j))
       = unat (size (fs ! i)) + unat sz + unat (size (fs ! j))"
proof -
  note j = succ [unfolded find_if_Some ChunkRefEq_def]
  note i = pred [unfolded find_if_Some ChunkRefEndEq_def]
  from j have jl: "j < length fs" and rj: "ref (fs ! j) = r + sz" by simp_all
  from i have il: "i < length fs" and ri: "ref (fs ! i) + size (fs ! i) = r"
    and firsti: "\<forall>k < i. ref (fs ! k) + size (fs ! k) \<noteq> r" by simp_all
  note bj = block_in_slab_no_wrap [OF cj]
  note bi = block_in_slab_no_wrap [OF ci]
  note bb = block_in_slab_no_wrap [OF blk]
  show ui: "unat (ref (fs ! i)) + unat (size (fs ! i)) = unat r"
    using bi(3) ri by simp
  show uj: "unat r + unat sz = unat (ref (fs ! j))"
    using bb(3) rj by simp
  have lt: "unat (size (fs ! i)) + unat sz + unat (size (fs ! j)) < 2 ^ 64"
    using ui uj bj(2) by simp
  have usj: "unat (sz + size (fs ! j)) = unat sz + unat (size (fs ! j))"
    using lt by (simp add: unat_add_lem [THEN iffD1])
  have nz: "sz + size (fs ! j) \<noteq> 0"
  proof
    assume "sz + size (fs ! j) = 0"
    then have "unat sz + unat (size (fs ! j)) = 0" using usj by simp
    then have "unat sz = 0" by simp
    then show False using bb(1) by (simp add: unat_eq_0)
  qed
  have "unat (size (fs ! i) + (sz + size (fs ! j)))
        = unat (size (fs ! i)) + unat (sz + size (fs ! j))"
    using lt usj by (simp add: unat_add_lem [THEN iffD1])
  then show "unat (size (fs ! i) + sz + size (fs ! j))
       = unat (size (fs ! i)) + unat sz + unat (size (fs ! j))"
    using usj by (simp add: add.assoc)
  have nej: "ref (fs ! j) + size (fs ! j) \<noteq> r"
  proof
    assume "ref (fs ! j) + size (fs ! j) = r"
    then have "r + (sz + size (fs ! j)) = r + 0" using rj by (simp add: add.assoc)
    then have "sz + size (fs ! j) = 0" by (simp only: add_left_cancel)
    then show False using nz by simp
  qed
  show ij: "i \<noteq> j" using ri nej by auto
  let ?fs1 = "fs[j := \<lparr>ref = r, size = size (fs ! j) + sz\<rparr>]"
  have ms: "merge_succ slabs fs r sz = (?fs1, Some j)"
    using succ nb1 by (simp add: merge_succ_def)
  have nej1: "ref (?fs1 ! j) + size (?fs1 ! j) \<noteq> r"
  proof
    assume "ref (?fs1 ! j) + size (?fs1 ! j) = r"
    then have "r + (sz + size (fs ! j)) = r + 0" using jl by (simp add: add.commute)
    then have "sz + size (fs ! j) = 0" by (simp only: add_left_cancel)
    then show False using nz by simp
  qed
  have first1: "\<forall>k < i. ref (?fs1 ! k) + size (?fs1 ! k) \<noteq> r"
  proof (intro allI impI)
    fix k assume k: "k < i"
    show "ref (?fs1 ! k) + size (?fs1 ! k) \<noteq> r"
    proof (cases "k = j")
      case True
      then show ?thesis using nej1 by simp
    next
      case False
      then have "?fs1 ! k = fs ! k" by simp
      then show ?thesis using firsti k by simp
    qed
  qed
  have i1: "?fs1 ! i = fs ! i" using ij by simp
  have pr: "find_if (ChunkRefEndEq r) ?fs1 = Some i"
    unfolding find_if_Some ChunkRefEndEq_def
    using il ri first1 by (simp add: i1)
  have j1: "?fs1 ! j = \<lparr>ref = r, size = size (fs ! j) + sz\<rparr>" using jl by simp
  have upd: "?fs1[i := (?fs1 ! i)\<lparr>size := size (?fs1 ! i) + size (?fs1 ! j)\<rparr>]
     = (fs[i := \<lparr>ref = ref (fs ! i), size = size (fs ! i) + sz + size (fs ! j)\<rparr>])
          [j := \<lparr>ref = r, size = size (fs ! j) + sz\<rparr>]"
  proof -
    have rec: "(fs ! i)\<lparr>size := x\<rparr> = \<lparr>ref = ref (fs ! i), size = x\<rparr>" for x
      by (cases "fs ! i") simp
    show ?thesis
      using ij by (simp add: i1 j1 rec list_update_swap [of i j] add.assoc add.commute [of sz])
  qed
  have "free_into slabs fs r sz push_ok =
      (erase_move_last (?fs1[i := (?fs1 ! i)\<lparr>size := size (?fs1 ! i) + size (?fs1 ! j)\<rparr>]) j, False)"
    by (simp add: free_into_merge_succ ms nb2 pr del: nth_list_update_eq nth_list_update_neq)
  then show "free_into slabs fs r sz push_ok =
       (erase_move_last
          (fs[i := \<lparr>ref = ref (fs ! i), size = size (fs ! i) + sz + size (fs ! j)\<rparr>]) j, False)"
    by (simp only: upd erase_move_last_update_same)
qed


lemma three_blocks_alloc_fields:
  "m_slabs three_blocks_alloc = [\<lparr>ref_end = 280, addr = 0x20000\<rparr>]"
  "m_free_space three_blocks_alloc = [\<lparr>ref = 48, size = 232\<rparr>]"
  "m_free_read_only three_blocks_alloc = []"
  "m_baseline three_blocks_alloc = 24"
  "m_free_space_state three_blocks_alloc = free_space_Dirty"
  "m_attach_mode three_blocks_alloc = attach_OwnedBuffer"
  by (simp_all add: three_blocks_alloc_def one_slab_alloc_fields)

lemma do_alloc_one_slab_8:
  "do_alloc one_slab_alloc 8 good_heap = (Inr \<lparr>m_addr = 0x20008, m_ref = 32\<rparr>, two_blocks_alloc)"
proof -
  note f = one_slab_alloc_fields
  have att: "is_attached one_slab_alloc" by (simp add: is_attached_def f)
  have tr: "translate one_slab_alloc (ref (m_free_space one_slab_alloc ! 0)) = Inr 0x20008"
    using translate_one_slab [OF f(1) att, of 32] by (simp add: f)
  have scan: "scan_free_space (m_free_space one_slab_alloc) 8 (length (m_free_space one_slab_alloc))
      = Some 0"
    by (simp add: f)
  have "do_alloc one_slab_alloc 8 good_heap =
     (Inr \<lparr>m_addr = 0x20008, m_ref = 32\<rparr>,
      one_slab_alloc\<lparr>m_free_space_state := free_space_Dirty,
        m_free_space := [\<lparr>ref = 40, size = 240\<rparr>]\<rparr>)"
    using do_alloc_reuse [OF _ _ att _ scan tr, of good_heap] by (simp add: f)
  then show ?thesis
    by (simp add: two_blocks_alloc_def one_slab_alloc_def)
qed

lemma do_alloc_two_blocks_8:
  "do_alloc two_blocks_alloc 8 good_heap = (Inr \<lparr>m_addr = 0x20010, m_ref = 40\<rparr>, three_blocks_alloc)"
proof -
  note f = two_blocks_alloc_fields
  have att: "is_attached two_blocks_alloc" by (simp add: is_attached_def f)
  have tr: "translate two_blocks_alloc (ref (m_free_space two_blocks_alloc ! 0)) = Inr 0x20010"
    using translate_one_slab [OF f(1) att, of 40] by (simp add: f)
  have scan: "scan_free_space (m_free_space two_blocks_alloc) 8 (length (m_free_space two_blocks_alloc))
      = Some 0"
    by (simp add: f)
  have "do_alloc two_blocks_alloc 8 good_heap =
     (Inr \<lparr>m_addr = 0x20010, m_ref = 40\<rparr>,
      two_blocks_alloc\<lparr>m_free_space_state := free_space_Dirty,
        m_free_space := [\<lparr>ref = 48, size = 232\<rparr>]\<rparr>)"
    using do_alloc_reuse [OF _ _ att _ scan tr, of good_heap] by (simp add: f)
  then show ?thesis
    by (simp add: three_blocks_alloc_def two_blocks_alloc_def one_slab_alloc_def)
qed

lemma do_free_three_blocks:
  assumes fs: "free_into [\<lparr>ref_end = 280, addr = 0x20000\<rparr>] fs r 8 True = (fs', False)"
    and r: "24 \<le> r" "r < 280"
  shows "do_free (three_blocks_alloc\<lparr>m_free_space := fs\<rparr>) r (0x20000 + (r - 24)) header_8 True
       = Inr (three_blocks_alloc\<lparr>m_free_space := fs'\<rparr>)"
proof -
  let ?s = "three_blocks_alloc\<lparr>m_free_space := fs\<rparr>"
  note f = three_blocks_alloc_fields
  have att: "is_attached ?s" by (simp add: is_attached_def f)
  have tr: "translate ?s r = Inr (0x20000 + (r - 24))"
    using translate_one_slab [of ?s 280 "0x20000" r] att r by (simp add: f)
  have ro: "\<not> is_read_only ?s r" using r by (simp add: is_read_only_def f)
  have fi: "free_into (m_slabs ?s) (m_free_space ?s) r (capacity_from_header header_8) True
      = (fs', False)"
    using fs by (simp add: f header_8_def)
  have "do_free ?s r (0x20000 + (r - 24)) header_8 True
      = Inr (?s\<lparr>m_free_space_state := free_space_Dirty, m_free_space := fs'\<rparr>)"
    using do_free_mutable [OF tr _ ro fi] by (simp add: f)
  then show ?thesis
    by (simp add: three_blocks_alloc_def one_slab_alloc_def)
qed

lemma coalesce_scenario_steps:
  "do_free three_blocks_alloc 32 0x20008 header_8 True =
     Inr (three_blocks_alloc\<lparr>m_free_space := [\<lparr>ref = 48, size = 232\<rparr>, \<lparr>ref = 32, size = 8\<rparr>]\<rparr>)"
  "do_free (three_blocks_alloc\<lparr>m_free_space := [\<lparr>ref = 48, size = 232\<rparr>, \<lparr>ref = 32, size = 8\<rparr>]\<rparr>)
       24 0x20000 header_8 True =
     Inr (three_blocks_alloc\<lparr>m_free_space := [\<lparr>ref = 48, size = 232\<rparr>, \<lparr>ref = 24, size = 16\<rparr>]\<rparr>)"
  "do_free (three_blocks_alloc\<lparr>m_free_space := [\<lparr>ref = 48, size = 232\<rparr>, \<lparr>ref = 24, size = 16\<rparr>]\<rparr>)
       40 0x20010 header_8 True =
     Inr (three_blocks_alloc\<lparr>m_free_space := [\<lparr>ref = 24, size = 256\<rparr>]\<rparr>)"
proof -
  have a: "three_blocks_alloc\<lparr>m_free_space := [\<lparr>ref = 48, size = 232\<rparr>]\<rparr> = three_blocks_alloc"
    by (simp add: three_blocks_alloc_def)
  have "free_into [\<lparr>ref_end = 280, addr = 0x20000\<rparr>] [\<lparr>ref = 48, size = 232\<rparr>] 32 8 True
        = ([\<lparr>ref = 48, size = 232\<rparr>, \<lparr>ref = 32, size = 8\<rparr>], False)"
    by (simp add: free_into_def ChunkRefEq_def ChunkRefEndEq_def SlabRefEndEq_def)
  from do_free_three_blocks [OF this]
  show "do_free three_blocks_alloc 32 0x20008 header_8 True =
     Inr (three_blocks_alloc\<lparr>m_free_space := [\<lparr>ref = 48, size = 232\<rparr>, \<lparr>ref = 32, size = 8\<rparr>]\<rparr>)"
    by (simp add: a)
  have "free_into [\<lparr>ref_end = 280, addr = 0x20000\<rparr>]
          [\<lparr>ref = 48, size = 232\<rparr>, \<lparr>ref = 32, size = 8\<rparr>] 24 8 True
        = ([\<lparr>ref = 48, size = 232\<rparr>, \<lparr>ref = 24, size = 16\<rparr>], False)"
    by (simp add: free_into_def ChunkRefEq_def ChunkRefEndEq_def SlabRefEndEq_def)
  from do_free_three_blocks [OF this]
  show "do_free (three_blocks_alloc\<lparr>m_free_space := [\<lparr>ref = 48, size = 232\<rparr>, \<lparr>ref = 32, size = 8\<rparr>]\<rparr>)
       24 0x20000 header_8 True =
     Inr (three_blocks_alloc\<lparr>m_free_space := [\<lparr>ref = 48, size = 232\<rparr>, \<lparr>ref = 24, size = 16\<rparr>]\<rparr>)"
    by simp
  have "free_into [\<lparr>ref_end = 280, addr = 0x20000\<rparr>]
          [\<lparr>ref = 48, size = 232\<rparr>, \<lparr>ref = 24, size = 16\<rparr>] 40 8 True
        = ([\<lparr>ref = 24, size = 256\<rparr>], False)"
    by (simp add: free_into_def ChunkRefEq_def ChunkRefEndEq_def SlabRefEndEq_def
        erase_move_last_def)
  from do_free_three_blocks [OF this]
  show "do_free (three_blocks_alloc\<lparr>m_free_space := [\<lparr>ref = 48, size = 232\<rparr>, \<lparr>ref = 24, size = 16\<rparr>]\<rparr>)
       40 0x20010 header_8 True =
     Inr (three_blocks_alloc\<lparr>m_free_space := [\<lparr>ref = 24, size = 256\<rparr>]\<rparr>)"
    by simp
qed

lemma coalesce_scenario_result:
  "coalesce_scenario = Inr (one_slab_alloc\<lparr>m_free_space := [\<lparr>ref = 24, size = 256\<rparr>]\<rparr>)"
proof -
  have "coalesce_scenario = Inr (three_blocks_alloc\<lparr>m_free_space := [\<lparr>ref = 24, size = 256\<rparr>]\<rparr>)"
    by (simp add: coalesce_scenario_def do_alloc_empty_8 do_alloc_one_slab_8 do_alloc_two_blocks_8
        coalesce_scenario_steps)
  then show ?thesis by (simp add: three_blocks_alloc_def)
qed

lemma do_free_coalesces:
  assumes inv: "alloc_inv s" and tr: "translate s r = Inr a" and ro: "\<not> is_read_only s r"
    and st: "m_free_space_state s = free_space_Dirty"
    and blk: "block_in_slab (m_baseline s) (m_slabs s) r (capacity_from_header hdr)"
    and succ: "find_if (ChunkRefEq (r + capacity_from_header hdr)) (m_free_space s) = Some j"
    and nb1: "find_if (SlabRefEndEq (r + capacity_from_header hdr)) (m_slabs s) = None"
    and pred: "find_if (ChunkRefEndEq r) (m_free_space s) = Some i"
    and nb2: "find_if (SlabRefEndEq r) (m_slabs s) = None"
  shows "\<exists>m fs'. do_free s r a hdr push_ok = Inr (s\<lparr>m_free_space := fs'\<rparr>)
         \<and> fs' = erase_move_last ((m_free_space s)[i := m]) j
         \<and> i \<noteq> j
         \<and> Suc (length fs') = length (m_free_space s)
         \<and> mset fs' + {#m_free_space s ! i, m_free_space s ! j#} = add_mset m (mset (m_free_space s))
         \<and> ref m = ref (m_free_space s ! i)
         \<and> unat (size m) = unat (size (m_free_space s ! i)) + unat (capacity_from_header hdr)
                              + unat (size (m_free_space s ! j))
         \<and> unat (ref (m_free_space s ! i)) + unat (size (m_free_space s ! i)) = unat r
         \<and> unat r + unat (capacity_from_header hdr) = unat (ref (m_free_space s ! j))"
proof -
  let ?fs = "m_free_space s" and ?sz = "capacity_from_header hdr"
  let ?m = "\<lparr>ref = ref (?fs ! i), size = size (?fs ! i) + ?sz + size (?fs ! j)\<rparr>"
  let ?fs' = "erase_move_last (?fs[i := ?m]) j"
  have jl: "j < length ?fs" using succ by (simp add: find_if_Some)
  have il: "i < length ?fs" using pred by (simp add: find_if_Some)
  have cj: "block_in_slab (m_baseline s) (m_slabs s) (ref (?fs ! j)) (size (?fs ! j))"
    using inv jl by (simp add: alloc_inv_def chunk_in_slab_def)
  have ci: "block_in_slab (m_baseline s) (m_slabs s) (ref (?fs ! i)) (size (?fs ! i))"
    using inv il by (simp add: alloc_inv_def chunk_in_slab_def)
  note c = free_into_coalesces_both [OF cj ci blk succ nb1 pred nb2]
  have s: "s\<lparr>m_free_space_state := free_space_Dirty\<rparr> = s" using st by (cases s) simp
  have "do_free s r a hdr push_ok =
      Inr (s\<lparr>m_free_space_state := free_space_Dirty, m_free_space := ?fs'\<rparr>)"
    using do_free_mutable [OF tr st ro c(2)] by simp
  then have d: "do_free s r a hdr push_ok = Inr (s\<lparr>m_free_space := ?fs'\<rparr>)"
    by (simp only: s)
  have len: "Suc (length ?fs') = length ?fs"
    using jl by (simp add: length_erase_move_last)
  have nj: "?fs[i := ?m] ! j = ?fs ! j" using c(1) by simp
  have "add_mset (?fs ! j) (mset ?fs') = mset (?fs[i := ?m])"
    using mset_erase_move_last [of j "?fs[i := ?m]"] jl by (simp only: nj length_list_update)
  then have "add_mset (?fs ! i) (add_mset (?fs ! j) (mset ?fs')) = add_mset ?m (mset ?fs)"
    using mset_list_update [OF il, of ?m] by (simp only:)
  then have ms: "mset ?fs' + {#?fs ! i, ?fs ! j#} = add_mset ?m (mset ?fs)"
    by simp
  have p1: "do_free s r a hdr push_ok = Inr (s\<lparr>m_free_space := ?fs'\<rparr>) \<and> ?fs' = ?fs'
      \<and> i \<noteq> j \<and> Suc (length ?fs') = length ?fs
      \<and> mset ?fs' + {#?fs ! i, ?fs ! j#} = add_mset ?m (mset ?fs)"
    using d c(1) len ms by (simp only: simp_thms)
  have p2: "ref ?m = ref (?fs ! i)
      \<and> unat (size ?m) = unat (size (?fs ! i)) + unat ?sz + unat (size (?fs ! j))
      \<and> unat (ref (?fs ! i)) + unat (size (?fs ! i)) = unat r
      \<and> unat r + unat ?sz = unat (ref (?fs ! j))"
    using c(3,4,5) by simp
  show ?thesis
    apply (rule exI [of _ ?m])
    apply (rule exI [of _ ?fs'])
    using p1 p2 by (simp only: simp_thms)
qed


text \<open>
  Claim C4. Let \<open>do_free\<close> be called in the Dirty state on a mutable block of
  \<open>capacity_from_header hdr\<close> bytes at \<open>r\<close> that lies within a slab, in an allocator that
  satisfies \<open>alloc_inv\<close>. Let \<open>j\<close> be the first chunk of \<open>m_free_space\<close> that begins at the
  end of the block and \<open>i\<close> the first chunk that ends at \<open>r\<close>, neither the end of the block
  nor \<open>r\<close> being the end of a slab. Then \<open>do_free\<close> returns normally and changes
  \<open>m_free_space\<close> only: chunk \<open>i\<close> becomes the chunk \<open>m\<close> that begins where the predecessor
  began and whose size is the sum of the three sizes (predecessor, block and successor are
  adjacent, and the sum does not wrap), chunk \<open>j\<close> is erased by moving the last chunk over
  it, and the list is one chunk shorter: as a multiset, the two chunks have been replaced by
  \<open>m\<close>. In the scenario of the spec (three adjacent blocks of 8 bytes are allocated from a
  fresh slab and freed in the order middle, left, right) the free list ends as the single
  chunk of 256 bytes at ref 24, which spans the whole slab.
\<close>

theorem do_free_coalesces_both:
  "(alloc_inv s \<and> translate s r = Inr a \<and> \<not> is_read_only s r
      \<and> m_free_space_state s = free_space_Dirty
      \<and> block_in_slab (m_baseline s) (m_slabs s) r (capacity_from_header hdr)
      \<and> find_if (ChunkRefEq (r + capacity_from_header hdr)) (m_free_space s) = Some j
      \<and> find_if (SlabRefEndEq (r + capacity_from_header hdr)) (m_slabs s) = None
      \<and> find_if (ChunkRefEndEq r) (m_free_space s) = Some i
      \<and> find_if (SlabRefEndEq r) (m_slabs s) = None
    \<longrightarrow> (\<exists>m fs'. do_free s r a hdr push_ok = Inr (s\<lparr>m_free_space := fs'\<rparr>)
         \<and> fs' = erase_move_last ((m_free_space s)[i := m]) j
         \<and> i \<noteq> j
         \<and> Suc (length fs') = length (m_free_space s)
         \<and> mset fs' + {#m_free_space s ! i, m_free_space s ! j#} = add_mset m (mset (m_free_space s))
         \<and> ref m = ref (m_free_space s ! i)
         \<and> unat (size m) = unat (size (m_free_space s ! i)) + unat (capacity_from_header hdr)
                              + unat (size (m_free_space s ! j))
         \<and> unat (ref (m_free_space s ! i)) + unat (size (m_free_space s ! i)) = unat r
         \<and> unat r + unat (capacity_from_header hdr) = unat (ref (m_free_space s ! j))))
   \<and> coalesce_scenario = Inr (one_slab_alloc\<lparr>m_free_space := [\<lparr>ref = 24, size = 256\<rparr>]\<rparr>)"
  using do_free_coalesces [of s r a hdr j i push_ok] coalesce_scenario_result
  by (simp only: simp_thms) blast

theorem do_free_coalesces_both_witness:
  "do_free (three_blocks_alloc\<lparr>m_free_space := [\<lparr>ref = 48, size = 232\<rparr>, \<lparr>ref = 24, size = 16\<rparr>]\<rparr>)
       40 0x20010 header_8 True =
     Inr (three_blocks_alloc\<lparr>m_free_space := [\<lparr>ref = 24, size = 256\<rparr>]\<rparr>)
   \<and> [\<lparr>ref = 24, size = 256\<rparr>]
       = whole_slab_chunks (m_baseline three_blocks_alloc) (m_slabs three_blocks_alloc)"
proof -
  let ?s = "three_blocks_alloc\<lparr>m_free_space := [\<lparr>ref = 48, size = 232\<rparr>, \<lparr>ref = 24, size = 16\<rparr>]\<rparr>"
  note f = three_blocks_alloc_fields
  have att: "is_attached ?s" by (simp add: is_attached_def f)
  have inv: "alloc_inv ?s"
    by (simp add: alloc_inv_def slabs_wf_iff slab_ref_def chunk_in_slab_def block_in_slab_def
        in_slab_def f)
  have tr: "translate ?s 40 = Inr 0x20010"
    using translate_one_slab [of ?s 280 "0x20000" 40] att by (simp add: f)
  have ro: "\<not> is_read_only ?s 40" by (simp add: is_read_only_def f)
  have blk: "block_in_slab (m_baseline ?s) (m_slabs ?s) 40 (capacity_from_header header_8)"
    by (simp add: block_in_slab_def in_slab_def slab_ref_def f header_8_def)
  have fi: "find_if (ChunkRefEq (40 + capacity_from_header header_8)) (m_free_space ?s) = Some 0"
    "find_if (SlabRefEndEq (40 + capacity_from_header header_8)) (m_slabs ?s) = None"
    "find_if (ChunkRefEndEq 40) (m_free_space ?s) = Some 1"
    "find_if (SlabRefEndEq 40) (m_slabs ?s) = None"
    by (simp_all add: ChunkRefEq_def ChunkRefEndEq_def SlabRefEndEq_def header_8_def f)
  from do_free_coalesces_both [where s = ?s and r = 40 and a = "0x20010" and hdr = header_8
      and j = 0 and i = 1 and push_ok = True, THEN conjunct1, rule_format]
    inv tr ro blk fi
  obtain m fs' where d: "do_free ?s 40 0x20010 header_8 True = Inr (?s\<lparr>m_free_space := fs'\<rparr>)"
    and fs': "fs' = erase_move_last ((m_free_space ?s)[1 := m]) 0"
    and rm: "ref m = ref (m_free_space ?s ! 1)"
    and sm: "unat (size m) = unat (size (m_free_space ?s ! 1)) + unat (capacity_from_header header_8)
                              + unat (size (m_free_space ?s ! 0))"
    by (simp add: f) blast
  have "unat (size m) = unat (256 :: 64 word)" using sm by (simp add: header_8_def)
  then have "size m = 256" by (simp only: word_unat_eq_iff)
  moreover have "ref m = 24" using rm by simp
  ultimately have m: "m = \<lparr>ref = 24, size = 256\<rparr>" by (cases m) simp
  have "fs' = [\<lparr>ref = 24, size = 256\<rparr>]"
    using fs' by (simp add: m erase_move_last_def)
  then have c1: "do_free ?s 40 0x20010 header_8 True =
     Inr (three_blocks_alloc\<lparr>m_free_space := [\<lparr>ref = 24, size = 256\<rparr>]\<rparr>)"
    using d by simp
  have c2: "[\<lparr>ref = 24, size = 256\<rparr>]
       = whole_slab_chunks (m_baseline three_blocks_alloc) (m_slabs three_blocks_alloc)"
    by (simp add: whole_slab_chunks_def slab_ref_def f)
  show ?thesis by (rule conjI [OF c1 c2])
qed

end
